theory Spec2Isabelle
  imports Complex_Main "HOL-Library.AList"
begin

section \<open>Invoice batch processing: the model of \<^verbatim>\<open>process_invoices.py\<close>\<close>

text \<open>
  The theory embeds class \<^verbatim>\<open>InvoiceProcessor\<close>: the per-invoice analysis with its
  retry loop, the progress ledger, the CSV result store and the orchestrating loop of
  \<^verbatim>\<open>process_all\<close>. Python texts are lists of characters read as code points below 256.
  What lies outside the repository is a parameter of the model (record \<open>env\<close>): the
  vision model, the image loader, the JSON decoder applied to the model's answer and
  the clock. Effects are explicit: the processor record carries the object's fields, the
  contents of the two output files, the history of model calls and the sequence of
  warnings, errors and sleeps. The file system itself is taken not to fail (no full
  disk, no missing permission), and a delay suggested by the provider to be a natural
  number of seconds.
\<close>

subsection \<open>Python values\<close>

text \<open>
  The objects \<^verbatim>\<open>json.loads\<close> returns. A \<^verbatim>\<open>dict\<close> is an association list in insertion
  order; \<open>map_of\<close> reads a key, \<open>AList.update\<close> is item assignment (in place for a key
  that is present, at the end for a new one). Floats are abstracted as reals; no
  definition below computes with a number.
\<close>

datatype json =
    JNull
  | JBool bool
  | JInt int
  | JFloat real
  | JStr string
  | JArr "json list"
  | JObj "(string \<times> json) list"

type_synonym dict = "(string \<times> json) list"

datatype exception = JSONDecodeError | RecursionError | TypeError | ValueError

text \<open>
  A call either returns or raises; what was written before a raise stays written, so
  both outcomes carry the state.
\<close>

datatype 'a outcome = Returns (outcome_value: 'a) | Raises exception (outcome_value: 'a)

subsection \<open>String operations\<close>

text \<open>\<^verbatim>\<open>str.isspace\<close> on code points below 256, and \<^verbatim>\<open>str.strip()\<close>.\<close>

definition py_isspace :: "char \<Rightarrow> bool" where
  "py_isspace c =
     (let n = (of_char c :: nat)
      in (9 \<le> n \<and> n \<le> 13) \<or> (28 \<le> n \<and> n \<le> 32) \<or> n = 133 \<or> n = 160)"

definition py_strip :: "string \<Rightarrow> string" where
  "py_strip s = rev (dropWhile py_isspace (rev (dropWhile py_isspace s)))"

text \<open>\<^verbatim>\<open>str.lower\<close> on code points below 256 (ASCII and Latin-1 capitals).\<close>

definition lower_char :: "char \<Rightarrow> char" where
  "lower_char c =
     (let n = (of_char c :: nat)
      in if (65 \<le> n \<and> n \<le> 90) \<or> (192 \<le> n \<and> n \<le> 222 \<and> n \<noteq> 215)
         then char_of (n + 32) else c)"

definition py_lower :: "string \<Rightarrow> string" where
  "py_lower s = map lower_char s"

definition startswith :: "string \<Rightarrow> string \<Rightarrow> bool" where
  "startswith s p = (take (length p) s = p)"

text \<open>
  \<^verbatim>\<open>s.replace(old, new)\<close>: every occurrence of \<open>old\<close>, found from the left without
  overlap, becomes \<open>new\<close>. Written \<open>replace old new s\<close>.
\<close>

function replace :: "string \<Rightarrow> string \<Rightarrow> string \<Rightarrow> string" where
  "replace old new [] = (if old = [] then new else [])"
| "replace old new (c # cs) =
     (if old = [] then new @ c # replace old new cs
      else if startswith (c # cs) old
        then new @ replace old new (drop (length old) (c # cs))
        else c # replace old new cs)"
  by pat_completeness auto
termination
  by (relation "measure (\<lambda>(old, new, s). length s)") auto

text \<open>\<^verbatim>\<open>sep.join(xs)\<close> for a list of strings.\<close>

fun py_join :: "string \<Rightarrow> string list \<Rightarrow> string" where
  "py_join sep [] = []"
| "py_join sep [x] = x"
| "py_join sep (x # y # ys) = x @ sep @ py_join sep (y # ys)"

text \<open>\<^verbatim>\<open>xs[:m]\<close> for an integer \<open>m\<close>: a negative bound counts from the end.\<close>

definition slice_to :: "int \<Rightarrow> 'a list \<Rightarrow> 'a list" where
  "slice_to m xs =
     (if 0 \<le> m then take (nat m) xs else take (length xs - nat (- m)) xs)"

subsection \<open>The environment and the processor\<close>

text \<open>
  One call of \<^verbatim>\<open>self.model.generate_content\<close> followed by \<^verbatim>\<open>response.text\<close>: the
  answer's text, \<^verbatim>\<open>ResourceExhausted\<close>, or any other exception. \<open>Resource_exhausted
  (Some d)\<close> is an exception whose \<^verbatim>\<open>retry_delay\<close> attribute is truthy and has
  \<^verbatim>\<open>seconds = d\<close>; \<open>Resource_exhausted None\<close> is one without a usable attribute.
\<close>

datatype api_result =
    Text string
  | Resource_exhausted "nat option"
  | Other_exception

text \<open>
  \<open>image_open f\<close> tells whether \<^verbatim>\<open>Image.open\<close> succeeds on file \<open>f\<close>;
  \<open>generate_content k f\<close> is the model's answer for file \<open>f\<close> when \<open>k\<close> calls were made
  before; \<open>json_loads\<close> is \<^verbatim>\<open>json.loads\<close>, which returns a value (\<open>Inr\<close>) or raises
  (\<open>Inl\<close>): \<^verbatim>\<open>JSONDecodeError\<close> on a text that is not JSON, or another exception, such
  as \<^verbatim>\<open>RecursionError\<close> on a text nested too deeply;
  \<open>now k\<close> is what \<^verbatim>\<open>datetime.now().isoformat()\<close> gives at the clock's \<open>k\<close>-th reading.
\<close>

record env =
  image_open :: "string \<Rightarrow> bool"
  generate_content :: "nat \<Rightarrow> string \<Rightarrow> api_result"
  json_loads :: "string \<Rightarrow> exception + json"
  now :: "nat \<Rightarrow> string"

text \<open>
  \<^verbatim>\<open>progress.json\<close>. Only \<^verbatim>\<open>save_progress\<close> writes it, so a decodable ledger is a
  list of file names with a timestamp. \<open>Torn\<close> is the file between \<^verbatim>\<open>open(..., 'w')\<close>,
  which empties it, and the end of the write: empty or a proper prefix of the document,
  on which \<^verbatim>\<open>json.load\<close> raises.
\<close>

record ledger =
  processed :: "string list"
  last_updated :: string

datatype ledger_file = Absent | Torn | Saved ledger

text \<open>
  \<^verbatim>\<open>invoice_data.csv\<close> as the rows handed to the CSV writer: the header, or the ten
  values of one record. \<open>None\<close> is a missing file, \<open>Some []\<close> an empty one.
\<close>

datatype csv_row = Header_row "string list" | Data_row "json list"

text \<open>
  Warnings, errors and sleeps, in the order they happen. Messages of level INFO are
  left out. The two sleeps are told apart by their call site.
\<close>

datatype event =
    Warning_quota_retry nat nat
  | Error_quota_exceeded string
  | Error_json_parsing string
  | Error_response string
  | Error_processing string
  | Warning_no_results
  | Error_no_image_files
  | Sleep_retry nat
  | Sleep_rate_limit real

text \<open>
  The processor: the counters and the result list of \<^verbatim>\<open>__init__\<close>, the contents of
  the two files under the output folder, the files for which the model was called (one
  entry per call), the events, and the number of clock readings.
\<close>

record processor =
  processed_count :: nat
  failed_count :: nat
  results :: "dict list"
  progress_file :: ledger_file
  output_csv :: "csv_row list option"
  calls :: "string list"
  events :: "event list"
  clock_reads :: nat

text \<open>A directory entry as \<^verbatim>\<open>pathlib\<close> presents it.\<close>

record path =
  name :: string
  is_file :: bool
  suffix :: string

definition REQUESTS_PER_MINUTE :: real where
  "REQUESTS_PER_MINUTE = 15"

definition DELAY_BETWEEN_REQUESTS :: real where
  "DELAY_BETWEEN_REQUESTS = 60 / REQUESTS_PER_MINUTE"

text \<open>
  \<^verbatim>\<open>__init__\<close> on an output folder that holds the given files: a new object with
  counters at zero and no results.
\<close>

definition InvoiceProcessor_init :: "processor \<Rightarrow> processor" where
  "InvoiceProcessor_init s = s\<lparr>processed_count := 0, failed_count := 0, results := []\<rparr>"

definition log_event :: "event \<Rightarrow> processor \<Rightarrow> processor" where
  "log_event e s = s\<lparr>events := events s @ [e]\<rparr>"

definition called :: "string \<Rightarrow> processor \<Rightarrow> processor" where
  "called f s = s\<lparr>calls := calls s @ [f]\<rparr>"

subsection \<open>\<^verbatim>\<open>analyze_invoice\<close>\<close>

text \<open>Lines 173 to 177: the removal of markdown code fences from the stripped answer.\<close>

definition remove_code_blocks :: "string \<Rightarrow> string" where
  "remove_code_blocks response_text =
     (if startswith response_text ''```json''
        then py_strip (replace ''```'' [] (replace ''```json'' [] response_text))
      else if startswith response_text ''```''
        then py_strip (replace ''```'' [] response_text)
      else response_text)"

definition max_retries :: nat where
  "max_retries = 3"

text \<open>
  The body of the \<^verbatim>\<open>for attempt in range(max_retries)\<close> loop, over the attempts still
  to make. Every branch returns except quota exhaustion with attempts left, which
  sleeps and goes round again. \<^verbatim>\<open>JSONDecodeError\<close> has a handler of its own; any other
  exception of the decoder, and the \<^verbatim>\<open>TypeError\<close> of item assignment on a decoded
  value that is not a \<^verbatim>\<open>dict\<close>, fall to the last handler.
\<close>

fun analyze_attempts :: "env \<Rightarrow> string \<Rightarrow> nat list \<Rightarrow> processor \<Rightarrow> dict option \<times> processor" where
  "analyze_attempts E f [] s = (None, s)"
| "analyze_attempts E f (attempt # rest) s =
     (if \<not> image_open E f then (None, log_event (Error_processing f) s)
      else
        (case generate_content E (length (calls s)) f of
          Other_exception \<Rightarrow> (None, log_event (Error_processing f) (called f s))
        | Resource_exhausted retry_delay \<Rightarrow>
            (if attempt < max_retries - 1
             then
               (let delay = (case retry_delay of Some d \<Rightarrow> d | None \<Rightarrow> 60)
                in analyze_attempts E f rest
                     (log_event (Sleep_retry delay)
                       (log_event (Warning_quota_retry delay (attempt + 1)) (called f s))))
             else (None, log_event (Error_quota_exceeded f) (called f s)))
        | Text raw \<Rightarrow>
            (let response_text = remove_code_blocks (py_strip raw)
             in (case json_loads E response_text of
                  Inl JSONDecodeError \<Rightarrow>
                    (None,
                     log_event (Error_response (take 200 response_text))
                       (log_event (Error_json_parsing f) (called f s)))
                | Inl _ \<Rightarrow> (None, log_event (Error_processing f) (called f s))
                | Inr (JObj data) \<Rightarrow>
                    (Some (AList.update ''invoice_file'' (JStr f) data), called f s)
                | Inr _ \<Rightarrow> (None, log_event (Error_processing f) (called f s))))))"

definition analyze_invoice :: "env \<Rightarrow> string \<Rightarrow> processor \<Rightarrow> dict option \<times> processor" where
  "analyze_invoice E f s = analyze_attempts E f [0..<max_retries] s"

subsection \<open>The progress ledger\<close>

definition load_progress :: "processor \<Rightarrow> exception + string list" where
  "load_progress s =
     (case progress_file s of
        Absent \<Rightarrow> Inr []
      | Torn \<Rightarrow> Inl JSONDecodeError
      | Saved progress \<Rightarrow> Inr (processed progress))"

text \<open>
  \<^verbatim>\<open>save_progress\<close> in its two steps: \<^verbatim>\<open>open(self.progress_file, 'w')\<close> empties the
  file, then \<^verbatim>\<open>json.dump\<close> writes the document, whose timestamp is read from the clock
  in between.
\<close>

definition open_w :: "processor \<Rightarrow> processor" where
  "open_w s = s\<lparr>progress_file := Torn\<rparr>"

definition json_dump :: "env \<Rightarrow> string list \<Rightarrow> processor \<Rightarrow> processor" where
  "json_dump E processed_files s =
     s\<lparr>progress_file := Saved \<lparr>processed = processed_files, last_updated = now E (clock_reads s)\<rparr>,
       clock_reads := clock_reads s + 1\<rparr>"

definition save_progress_steps :: "env \<Rightarrow> string list \<Rightarrow> (processor \<Rightarrow> processor) list" where
  "save_progress_steps E processed_files = [open_w, json_dump E processed_files]"

definition save_progress :: "env \<Rightarrow> string list \<Rightarrow> processor \<Rightarrow> processor" where
  "save_progress E processed_files s = fold (\<lambda>step. step) (save_progress_steps E processed_files) s"

text \<open>The processor when the process dies after \<open>k\<close> steps of a save.\<close>

definition save_progress_interrupted :: "nat \<Rightarrow> env \<Rightarrow> string list \<Rightarrow> processor \<Rightarrow> processor" where
  "save_progress_interrupted k E processed_files s =
     fold (\<lambda>step. step) (take k (save_progress_steps E processed_files)) s"

subsection \<open>The result store\<close>

definition fieldnames :: "string list" where
  "fieldnames =
     [''invoice_file'', ''invoice_number'', ''date'', ''seller'', ''client'',
      ''category'', ''confidence'', ''items_found'', ''reasoning'', ''total_amount'']"

text \<open>The strings of a list, when all its elements are strings.\<close>

fun str_items :: "json list \<Rightarrow> string list option" where
  "str_items [] = Some []"
| "str_items (JStr x # xs) = (case str_items xs of None \<Rightarrow> None | Some ys \<Rightarrow> Some (x # ys))"
| "str_items (_ # xs) = None"

text \<open>
  Lines 252 to 254: the copy of a result with a list under \<^verbatim>\<open>items_found\<close> joined into
  one string. \<^verbatim>\<open>', '.join\<close> raises \<^verbatim>\<open>TypeError\<close> on an element that is not a string.
\<close>

definition join_items_found :: "dict \<Rightarrow> exception + dict" where
  "join_items_found result =
     (case map_of result ''items_found'' of
        Some (JArr xs) \<Rightarrow>
          (case str_items xs of
             None \<Rightarrow> Inl TypeError
           | Some ys \<Rightarrow> Inr (AList.update ''items_found'' (JStr (py_join '', '' ys)) result))
      | _ \<Rightarrow> Inr result)"

text \<open>
  \<^verbatim>\<open>csv.DictWriter\<close> with its default \<^verbatim>\<open>extrasaction='raise'\<close> and \<^verbatim>\<open>restval=''\<close>: a key
  outside the field names raises \<^verbatim>\<open>ValueError\<close>; a missing field is written empty.
\<close>

definition dict_to_list :: "dict \<Rightarrow> exception + json list" where
  "dict_to_list rowdict =
     (if list_all (\<lambda>k. k \<in> set fieldnames) (map fst rowdict)
      then Inr (map (\<lambda>k. case map_of rowdict k of Some v \<Rightarrow> v | None \<Rightarrow> JStr []) fieldnames)
      else Inl ValueError)"

definition writerow :: "dict \<Rightarrow> exception + csv_row" where
  "writerow result =
     (case join_items_found result of
        Inl e \<Rightarrow> Inl e
      | Inr row \<Rightarrow> (case dict_to_list row of Inl e \<Rightarrow> Inl e | Inr vs \<Rightarrow> Inr (Data_row vs)))"

text \<open>The loop of lines 250 to 255 over \<^verbatim>\<open>self.results\<close>, appending to the open file.\<close>

fun write_rows :: "dict list \<Rightarrow> csv_row list \<Rightarrow> exception option \<times> csv_row list" where
  "write_rows [] file = (None, file)"
| "write_rows (result # rest) file =
     (case writerow result of
        Inl e \<Rightarrow> (Some e, file)
      | Inr row \<Rightarrow> write_rows rest (file @ [row]))"

definition save_results :: "processor \<Rightarrow> exception option \<times> processor" where
  "save_results s =
     (if results s = [] then (None, log_event Warning_no_results s)
      else
        (let file_exists = (case output_csv s of None \<Rightarrow> False | Some rows \<Rightarrow> rows \<noteq> []);
             opened = (case output_csv s of None \<Rightarrow> [] | Some rows \<Rightarrow> rows);
             headed = (if \<not> file_exists then opened @ [Header_row fieldnames] else opened)
         in (case write_rows (results s) headed of
               (err, file) \<Rightarrow> (err, s\<lparr>output_csv := Some file\<rparr>))))"

subsection \<open>\<^verbatim>\<open>process_all\<close>\<close>

definition image_extensions :: "string list" where
  "image_extensions = [''.jpg'', ''.jpeg'', ''.png'', ''.gif'', ''.bmp'', ''.tiff'']"

text \<open>Lines 268 to 271: the image files of the input folder, in listing order.\<close>

definition image_files :: "path list \<Rightarrow> path list" where
  "image_files listing =
     filter (\<lambda>f. is_file f \<and> py_lower (suffix f) \<in> set image_extensions) listing"

text \<open>
  Lines 281 to 284: the files not yet in the ledger, cut to \<^verbatim>\<open>max_files\<close> when that is
  truthy (\<^verbatim>\<open>if max_files:\<close>), that is neither \<^verbatim>\<open>None\<close> nor zero.
\<close>

definition remaining_files :: "int option \<Rightarrow> string list \<Rightarrow> string list \<Rightarrow> string list" where
  "remaining_files max_files names processed_files =
     (let remaining = filter (\<lambda>f. f \<notin> set processed_files) names
      in (case max_files of
            None \<Rightarrow> remaining
          | Some m \<Rightarrow> if m \<noteq> 0 then slice_to m remaining else remaining))"

text \<open>
  The loop of lines 296 to 316 over the remaining files, \<open>idx\<close> counting from 1. A
  result counts when it is truthy: a non-empty \<^verbatim>\<open>dict\<close>. The two saves stand outside
  every \<^verbatim>\<open>try\<close>, so an exception of \<^verbatim>\<open>save_results\<close> ends the loop.
\<close>

fun process_files ::
  "env \<Rightarrow> nat \<Rightarrow> nat \<Rightarrow> string list \<Rightarrow> string list \<Rightarrow> processor \<Rightarrow> (string list \<times> processor) outcome" where
  "process_files E total_files idx [] processed_files s = Returns (processed_files, s)"
| "process_files E total_files idx (image_file # rest) processed_files s =
     (case analyze_invoice E image_file s of
        (result, s1) \<Rightarrow>
          (let truthy = (case result of None \<Rightarrow> False | Some d \<Rightarrow> d \<noteq> []);
               processed_files' = (if truthy then processed_files @ [image_file] else processed_files);
               s2 = (case result of
                       None \<Rightarrow> s1\<lparr>failed_count := failed_count s1 + 1\<rparr>
                     | Some d \<Rightarrow>
                         if d \<noteq> []
                         then s1\<lparr>results := results s1 @ [d],
                                processed_count := processed_count s1 + 1\<rparr>
                         else s1\<lparr>failed_count := failed_count s1 + 1\<rparr>);
               s3 = save_progress E processed_files' s2
           in (case save_results s3 of
                 (Some e, s4) \<Rightarrow> Raises e (processed_files', s4)
               | (None, s4) \<Rightarrow>
                   process_files E total_files (idx + 1) rest processed_files'
                     (if idx < total_files
                      then log_event (Sleep_rate_limit DELAY_BETWEEN_REQUESTS) s4
                      else s4))))"

definition process_all :: "env \<Rightarrow> int option \<Rightarrow> path list \<Rightarrow> processor \<Rightarrow> processor outcome" where
  "process_all E max_files listing s =
     (if image_files listing = [] then Returns (log_event Error_no_image_files s)
      else
        (case load_progress s of
           Inl e \<Rightarrow> Raises e s
         | Inr processed_files \<Rightarrow>
             (let remaining = remaining_files max_files (map name (image_files listing)) processed_files
              in (case process_files E (length remaining) 1 remaining processed_files s of
                    Returns (done, s') \<Rightarrow> Returns s'
                  | Raises e (done, s') \<Rightarrow> Raises e s'))))"

subsection \<open>Observations on a run\<close>

text \<open>The delays of the rate-limit sleeps among the events, in order.\<close>

fun rate_limit_sleeps :: "event list \<Rightarrow> real list" where
  "rate_limit_sleeps [] = []"
| "rate_limit_sleeps (Sleep_rate_limit d # es) = d # rate_limit_sleeps es"
| "rate_limit_sleeps (_ # es) = rate_limit_sleeps es"

text \<open>A result the store can write: \<^verbatim>\<open>writerow\<close> does not raise on it.\<close>

definition storable :: "dict \<Rightarrow> bool" where
  "storable result = (case writerow result of Inl e \<Rightarrow> False | Inr row \<Rightarrow> True)"

text \<open>\<open>contains s p\<close>: the text \<open>p\<close> occurs in \<open>s\<close>.\<close>

fun contains :: "string \<Rightarrow> string \<Rightarrow> bool" where
  "contains [] p = (p = [])"
| "contains (c # cs) p = (startswith (c # cs) p \<or> contains cs p)"

subsection \<open>Example inputs\<close>

text \<open>
  A decoder that agrees with \<^verbatim>\<open>json.loads\<close> on the texts the examples use, an
  environment in which every image opens and the model's answer depends on the file
  alone, an output folder with no files yet, and a directory entry for an image.
\<close>

definition example_loads :: "string \<Rightarrow> exception + json" where
  "example_loads t =
     (if t = ''{}'' then Inr (JObj [])
      else if t = ''{\"vat\": \"8%\"}'' then Inr (JObj [(''vat'', JStr ''8%'')])
      else if t = ''{\"a\": \"\"}'' then Inr (JObj [(''a'', JStr [])])
      else if t = ''{\"a\": \"```\"}'' then Inr (JObj [(''a'', JStr ''```'')])
      else Inl JSONDecodeError)"

definition example_env :: "(string \<Rightarrow> api_result) \<Rightarrow> env" where
  "example_env answer =
     \<lparr>image_open = (\<lambda>f. True), generate_content = (\<lambda>k f. answer f),
      json_loads = example_loads, now = (\<lambda>k. ''2024-01-01T00:00:00'')\<rparr>"

definition new_folder :: processor where
  "new_folder =
     \<lparr>processed_count = 0, failed_count = 0, results = [], progress_file = Absent,
      output_csv = None, calls = [], events = [], clock_reads = 0\<rparr>"

definition jpg :: "string \<Rightarrow> path" where
  "jpg n = \<lparr>name = n, is_file = True, suffix = ''.jpg''\<rparr>"

text \<open>The row of a result that holds nothing but its file name.\<close>

definition empty_row :: "string \<Rightarrow> csv_row" where
  "empty_row f = Data_row (JStr f # replicate 9 (JStr []))"

text \<open>An output folder whose ledger lists one completed file.\<close>

definition one_done :: processor where
  "one_done =
     new_folder\<lparr>progress_file :=
       Saved \<lparr>processed = [''a.jpg''], last_updated = ''2024-01-01T00:00:00''\<rparr>\<rparr>"

text \<open>
  An answer of a hundred thousand opening brackets, on which \<^verbatim>\<open>json.loads\<close> raises
  \<^verbatim>\<open>RecursionError\<close>, and an environment whose model gives that answer.
\<close>

definition deeply_nested :: string where
  "deeply_nested = replicate 100000 (CHR ''['')"

definition nested_env :: env where
  "nested_env =
     \<lparr>image_open = (\<lambda>f. True), generate_content = (\<lambda>k f. Text deeply_nested),
      json_loads = (\<lambda>t. if t = deeply_nested then Inl RecursionError else example_loads t),
      now = (\<lambda>k. ''2024-01-01T00:00:00'')\<rparr>"

text \<open>The processor a run leaves when its one image's answer does not decode.\<close>

definition after_failed_run :: processor where
  "after_failed_run =
     outcome_value (process_all (example_env (\<lambda>f. Text ''Sorry, no invoice here'')) None
       [jpg ''a.jpg''] new_folder)"

section \<open>Basic facts\<close>

lemma max_retries_attempts: "[0..<max_retries] = [0, 1, 2]"
  by (simp add: max_retries_def upt_rec)

lemma rate_limit_sleeps_append [simp]:
  "rate_limit_sleeps (xs @ ys) = rate_limit_sleeps xs @ rate_limit_sleeps ys"
  by (induction xs rule: rate_limit_sleeps.induct) simp_all

subsection \<open>One attempt of \<^verbatim>\<open>analyze_invoice\<close>, branch by branch\<close>

declare analyze_attempts.simps(2) [simp del]

lemma attempt_no_image:
  "\<not> image_open E f \<Longrightarrow>
   analyze_attempts E f (a # as) s = (None, log_event (Error_processing f) s)"
  by (simp add: analyze_attempts.simps(2))

lemma attempt_other_exception:
  "image_open E f \<Longrightarrow> generate_content E (length (calls s)) f = Other_exception \<Longrightarrow>
   analyze_attempts E f (a # as) s = (None, log_event (Error_processing f) (called f s))"
  by (simp add: analyze_attempts.simps(2))

lemma attempt_quota_retry:
  "image_open E f \<Longrightarrow> generate_content E (length (calls s)) f = Resource_exhausted rd \<Longrightarrow>
   a < max_retries - 1 \<Longrightarrow>
   analyze_attempts E f (a # as) s =
     analyze_attempts E f as
       (log_event (Sleep_retry (case rd of Some d \<Rightarrow> d | None \<Rightarrow> 60))
         (log_event (Warning_quota_retry (case rd of Some d \<Rightarrow> d | None \<Rightarrow> 60) (a + 1))
           (called f s)))"
  by (simp add: analyze_attempts.simps(2) Let_def)

lemma attempt_quota_last:
  "image_open E f \<Longrightarrow> generate_content E (length (calls s)) f = Resource_exhausted rd \<Longrightarrow>
   \<not> a < max_retries - 1 \<Longrightarrow>
   analyze_attempts E f (a # as) s = (None, log_event (Error_quota_exceeded f) (called f s))"
  by (simp add: analyze_attempts.simps(2))

lemma attempt_malformed:
  "image_open E f \<Longrightarrow> generate_content E (length (calls s)) f = Text raw \<Longrightarrow>
   json_loads E (remove_code_blocks (py_strip raw)) = Inl JSONDecodeError \<Longrightarrow>
   analyze_attempts E f (a # as) s =
     (None,
      log_event (Error_response (take 200 (remove_code_blocks (py_strip raw))))
        (log_event (Error_json_parsing f) (called f s)))"
  by (simp add: analyze_attempts.simps(2) Let_def)

lemma attempt_decoder_raised:
  "image_open E f \<Longrightarrow> generate_content E (length (calls s)) f = Text raw \<Longrightarrow>
   json_loads E (remove_code_blocks (py_strip raw)) = Inl e \<Longrightarrow> e \<noteq> JSONDecodeError \<Longrightarrow>
   analyze_attempts E f (a # as) s = (None, log_event (Error_processing f) (called f s))"
  by (cases e) (simp_all add: analyze_attempts.simps(2) Let_def)

lemma attempt_object:
  "image_open E f \<Longrightarrow> generate_content E (length (calls s)) f = Text raw \<Longrightarrow>
   json_loads E (remove_code_blocks (py_strip raw)) = Inr (JObj d) \<Longrightarrow>
   analyze_attempts E f (a # as) s =
     (Some (AList.update ''invoice_file'' (JStr f) d), called f s)"
  by (simp add: analyze_attempts.simps(2) Let_def)

lemma attempt_not_object:
  "image_open E f \<Longrightarrow> generate_content E (length (calls s)) f = Text raw \<Longrightarrow>
   json_loads E (remove_code_blocks (py_strip raw)) = Inr v \<Longrightarrow> \<forall>d. v \<noteq> JObj d \<Longrightarrow>
   analyze_attempts E f (a # as) s = (None, log_event (Error_processing f) (called f s))"
  by (cases v) (simp_all add: analyze_attempts.simps(2) Let_def)

text \<open>
  An analysis touches nothing but the call history and the events: it makes at most one
  call per attempt, all for its own file, and no rate-limit sleep.
\<close>

lemma analyze_attempts_frame:
  "\<exists>k es. k \<le> length as \<and> rate_limit_sleeps es = [] \<and>
     snd (analyze_attempts E f as s) = s\<lparr>calls := calls s @ replicate k f, events := events s @ es\<rparr>"
proof (induction as arbitrary: s)
  case Nil
  have "snd (analyze_attempts E f [] s) = s\<lparr>calls := calls s @ replicate 0 f, events := events s @ []\<rparr>"
    by simp
  then show ?case by (metis le0 rate_limit_sleeps.simps(1))
next
  case (Cons a as)
  have one: "\<And>es. rate_limit_sleeps es = [] \<Longrightarrow>
      snd (analyze_attempts E f (a # as) s) = s\<lparr>calls := calls s @ replicate 1 f, events := events s @ es\<rparr>
      \<Longrightarrow> ?case"
    by (metis One_nat_def Suc_leI length_Cons zero_less_Suc)
  have zero: "\<And>es. rate_limit_sleeps es = [] \<Longrightarrow>
      snd (analyze_attempts E f (a # as) s) = s\<lparr>calls := calls s @ replicate 0 f, events := events s @ es\<rparr>
      \<Longrightarrow> ?case"
    by (metis le0)
  show ?case
  proof (cases "image_open E f")
    case False
    then show ?thesis
      by (intro zero[of "[Error_processing f]"]) (simp_all add: attempt_no_image log_event_def)
  next
    case True
    show ?thesis
    proof (cases "generate_content E (length (calls s)) f")
      case Other_exception
      with True show ?thesis
        by (intro one[of "[Error_processing f]"])
           (simp_all add: attempt_other_exception log_event_def called_def)
    next
      case (Resource_exhausted rd)
      show ?thesis
      proof (cases "a < max_retries - 1")
        case False
        with True Resource_exhausted show ?thesis
          by (intro one[of "[Error_quota_exceeded f]"])
             (simp_all add: attempt_quota_last log_event_def called_def)
      next
        case lt: True
        define d where "d = (case rd of Some d \<Rightarrow> d | None \<Rightarrow> 60)"
        define s1 where "s1 = log_event (Sleep_retry d) (log_event (Warning_quota_retry d (a + 1)) (called f s))"
        have eq: "analyze_attempts E f (a # as) s = analyze_attempts E f as s1"
          using True Resource_exhausted lt by (simp add: attempt_quota_retry s1_def d_def)
        from Cons.IH[of s1] obtain k es where k: "k \<le> length as" and es: "rate_limit_sleeps es = []"
          and st: "snd (analyze_attempts E f as s1) = s1\<lparr>calls := calls s1 @ replicate k f, events := events s1 @ es\<rparr>"
          by blast
        have "snd (analyze_attempts E f (a # as) s) =
            s\<lparr>calls := calls s @ replicate (Suc k) f,
              events := events s @ ([Warning_quota_retry d (a + 1), Sleep_retry d] @ es)\<rparr>"
          unfolding eq st by (simp add: s1_def log_event_def called_def)
        moreover have "rate_limit_sleeps ([Warning_quota_retry d (a + 1), Sleep_retry d] @ es) = []"
          using es by simp
        moreover have "Suc k \<le> length (a # as)" using k by simp
        ultimately show ?thesis by blast
      qed
    next
      case (Text raw)
      show ?thesis
      proof (cases "json_loads E (remove_code_blocks (py_strip raw))")
        case (Inl e)
        show ?thesis
        proof (cases "e = JSONDecodeError")
          case True
          with \<open>image_open E f\<close> Text Inl show ?thesis
            by (intro one[of "[Error_json_parsing f, Error_response (take 200 (remove_code_blocks (py_strip raw)))]"])
               (simp_all add: attempt_malformed log_event_def called_def)
        next
          case False
          with \<open>image_open E f\<close> Text Inl show ?thesis
            by (intro one[of "[Error_processing f]"])
               (simp_all add: attempt_decoder_raised log_event_def called_def)
        qed
      next
        case (Inr v)
        show ?thesis
        proof (cases "\<exists>d. v = JObj d")
          case True
          then obtain d where "v = JObj d" by blast
          with \<open>image_open E f\<close> Text Inr show ?thesis
            by (intro one[of "[]"]) (simp_all add: attempt_object log_event_def called_def)
        next
          case False
          with \<open>image_open E f\<close> Text Inr show ?thesis
            by (intro one[of "[Error_processing f]"])
               (simp_all add: attempt_not_object log_event_def called_def)
        qed
      qed
    qed
  qed
qed

lemma analyze_invoice_frame:
  "\<exists>k es. k \<le> 3 \<and> rate_limit_sleeps es = [] \<and>
     snd (analyze_invoice E f s) = s\<lparr>calls := calls s @ replicate k f, events := events s @ es\<rparr>"
  using analyze_attempts_frame[of "[0..<max_retries]" E f s]
  by (simp add: analyze_invoice_def max_retries_def)

text \<open>Quota exhaustion on every call: three calls, then failure.\<close>

lemma analyze_invoice_exhausted:
  assumes ex: "\<And>k. \<exists>rd. generate_content E k f = Resource_exhausted rd" and img: "image_open E f"
  shows "\<exists>es. rate_limit_sleeps es = [] \<and> analyze_invoice E f s =
           (None, s\<lparr>calls := calls s @ replicate 3 f, events := events s @ es\<rparr>)"
proof -
  obtain r0 where r0: "generate_content E (length (calls s)) f = Resource_exhausted r0"
    using ex by blast
  define d0 where "d0 = (case r0 of Some d \<Rightarrow> d | None \<Rightarrow> 60)"
  define s1 where "s1 = log_event (Sleep_retry d0) (log_event (Warning_quota_retry d0 (0 + 1)) (called f s))"
  obtain r1 where r1: "generate_content E (length (calls s1)) f = Resource_exhausted r1"
    using ex by blast
  define d1 where "d1 = (case r1 of Some d \<Rightarrow> d | None \<Rightarrow> 60)"
  define s2 where "s2 = log_event (Sleep_retry d1) (log_event (Warning_quota_retry d1 (1 + 1)) (called f s1))"
  obtain r2 where r2: "generate_content E (length (calls s2)) f = Resource_exhausted r2"
    using ex by blast
  have a0: "analyze_attempts E f [0, 1, 2] s = analyze_attempts E f [1, 2] s1"
    unfolding s1_def d0_def by (rule attempt_quota_retry[OF img r0]) (simp add: max_retries_def)
  have a1: "analyze_attempts E f [1, 2] s1 = analyze_attempts E f [2] s2"
    unfolding s2_def d1_def by (rule attempt_quota_retry[OF img r1]) (simp add: max_retries_def)
  have a2: "analyze_attempts E f [2] s2 = (None, log_event (Error_quota_exceeded f) (called f s2))"
    by (rule attempt_quota_last[OF img r2]) (simp add: max_retries_def)
  have "analyze_invoice E f s = (None, log_event (Error_quota_exceeded f) (called f s2))"
    by (simp only: analyze_invoice_def max_retries_attempts a0 a1 a2)
  also have "log_event (Error_quota_exceeded f) (called f s2) =
      s\<lparr>calls := calls s @ replicate 3 f,
        events := events s @ [Warning_quota_retry d0 (0 + 1), Sleep_retry d0,
           Warning_quota_retry d1 (1 + 1), Sleep_retry d1, Error_quota_exceeded f]\<rparr>"
    by (simp add: s2_def s1_def log_event_def called_def numeral_3_eq_3)
  finally show ?thesis
    by (intro exI[of _ "[Warning_quota_retry d0 (0 + 1), Sleep_retry d0,
           Warning_quota_retry d1 (1 + 1), Sleep_retry d1, Error_quota_exceeded f]"]) simp
qed

subsection \<open>The saves\<close>

lemma save_progress_eq:
  "save_progress E pf s =
     s\<lparr>progress_file := Saved \<lparr>processed = pf, last_updated = now E (clock_reads s)\<rparr>,
       clock_reads := clock_reads s + 1\<rparr>"
  by (simp add: save_progress_def save_progress_steps_def open_w_def json_dump_def)

lemma save_results_empty:
  "results s = [] \<Longrightarrow> save_results s = (None, log_event Warning_no_results s)"
  by (simp add: save_results_def)

lemma write_rows_storable:
  "list_all storable rs \<Longrightarrow> \<exists>rows. write_rows rs csv = (None, csv @ rows) \<and> length rows = length rs
     \<and> list_all (\<lambda>r. \<exists>vs. r = Data_row vs) rows"
proof (induction rs arbitrary: csv)
  case Nil
  then show ?case by simp
next
  case (Cons r rs)
  from Cons.prems have sr: "storable r" and rest: "list_all storable rs"
    by simp_all
  from sr obtain row where row: "writerow r = Inr row"
    by (auto simp: storable_def split: sum.splits)
  have dr: "\<exists>vs. row = Data_row vs" using row by (auto simp: writerow_def split: sum.splits)
  from Cons.IH[OF rest, of "csv @ [row]"] obtain rows where
    "write_rows rs (csv @ [row]) = (None, (csv @ [row]) @ rows)" "length rows = length rs"
    "list_all (\<lambda>r. \<exists>vs. r = Data_row vs) rows"
    by blast
  then show ?case using row dr
    by (intro exI[of _ "row # rows"]) simp
qed

lemma save_results_storable:
  assumes "list_all storable (results s)"
  shows "\<exists>s'. save_results s = (None, s') \<and> results s' = results s \<and> calls s' = calls s
     \<and> failed_count s' = failed_count s \<and> processed_count s' = processed_count s
     \<and> progress_file s' = progress_file s \<and> clock_reads s' = clock_reads s
     \<and> rate_limit_sleeps (events s') = rate_limit_sleeps (events s)"
proof (cases "results s = []")
  case True
  then show ?thesis by (simp add: save_results_empty log_event_def)
next
  case False
  define headed where "headed = (if \<not> (case output_csv s of None \<Rightarrow> False | Some rows \<Rightarrow> rows \<noteq> [])
      then (case output_csv s of None \<Rightarrow> [] | Some rows \<Rightarrow> rows) @ [Header_row fieldnames]
      else (case output_csv s of None \<Rightarrow> [] | Some rows \<Rightarrow> rows))"
  from write_rows_storable[OF assms, of headed] obtain rows where
    w: "write_rows (results s) headed = (None, headed @ rows)" by blast
  have "save_results s = (None, s\<lparr>output_csv := Some (headed @ rows)\<rparr>)"
    using False w by (simp add: save_results_def Let_def headed_def)
  then show ?thesis by simp
qed

subsection \<open>One round of the loop\<close>

lemma update_not_Nil: "AList.update k v al \<noteq> []"
  by (cases al) auto

lemma analyze_attempts_truthy:
  "analyze_attempts E f as s = (Some d, s1) \<Longrightarrow> d \<noteq> []"
  by (induction E f as s rule: analyze_attempts.induct)
     (auto simp: analyze_attempts.simps(2) Let_def update_not_Nil
           split: if_splits api_result.splits option.splits sum.splits exception.splits json.splits)

lemma analyze_invoice_truthy:
  "analyze_invoice E f s = (Some d, s1) \<Longrightarrow> d \<noteq> []"
  unfolding analyze_invoice_def by (rule analyze_attempts_truthy)

declare process_files.simps(2) [simp del]

lemma process_files_failed:
  assumes "analyze_invoice E f s = (None, s1)"
  shows "process_files E tot idx (f # rest) pf s =
     (case save_results (save_progress E pf (s1\<lparr>failed_count := failed_count s1 + 1\<rparr>)) of
        (Some e, s4) \<Rightarrow> Raises e (pf, s4)
      | (None, s4) \<Rightarrow>
          process_files E tot (idx + 1) rest pf
            (if idx < tot then log_event (Sleep_rate_limit DELAY_BETWEEN_REQUESTS) s4 else s4))"
  using assms by (simp add: process_files.simps(2) Let_def)

lemma process_files_succeeded:
  assumes "analyze_invoice E f s = (Some d, s1)"
  shows "process_files E tot idx (f # rest) pf s =
     (case save_results (save_progress E (pf @ [f])
              (s1\<lparr>results := results s1 @ [d], processed_count := processed_count s1 + 1\<rparr>)) of
        (Some e, s4) \<Rightarrow> Raises e (pf @ [f], s4)
      | (None, s4) \<Rightarrow>
          process_files E tot (idx + 1) rest (pf @ [f])
            (if idx < tot then log_event (Sleep_rate_limit DELAY_BETWEEN_REQUESTS) s4 else s4))"
  using assms analyze_invoice_truthy[OF assms] by (simp add: process_files.simps(2) Let_def)

lemma write_rows_frame: "\<exists>rows. snd (write_rows rs csv) = csv @ rows"
proof (induction rs arbitrary: csv)
  case Nil
  then show ?case by simp
next
  case (Cons r rs)
  show ?case
  proof (cases "writerow r")
    case (Inl e)
    then show ?thesis by simp
  next
    case (Inr row)
    from Cons.IH[of "csv @ [row]"] obtain rows where "snd (write_rows rs (csv @ [row])) = (csv @ [row]) @ rows"
      by blast
    then show ?thesis using Inr by (intro exI[of _ "row # rows"]) simp
  qed
qed

lemma save_results_frame:
  "\<exists>csv es. rate_limit_sleeps es = [] \<and>
     snd (save_results s) = s\<lparr>output_csv := csv, events := events s @ es\<rparr>"
proof (cases "results s = []")
  case True
  have "snd (save_results s) = s\<lparr>output_csv := output_csv s, events := events s @ [Warning_no_results]\<rparr>"
    using True by (simp add: save_results_def log_event_def)
  moreover have "rate_limit_sleeps [Warning_no_results] = []" by simp
  ultimately show ?thesis by blast
next
  case False
  obtain err csv where w: "write_rows (results s)
     (if \<not> (case output_csv s of None \<Rightarrow> False | Some rows \<Rightarrow> rows \<noteq> [])
      then (case output_csv s of None \<Rightarrow> [] | Some rows \<Rightarrow> rows) @ [Header_row fieldnames]
      else (case output_csv s of None \<Rightarrow> [] | Some rows \<Rightarrow> rows)) = (err, csv)"
    by (cases "write_rows (results s)
     (if \<not> (case output_csv s of None \<Rightarrow> False | Some rows \<Rightarrow> rows \<noteq> [])
      then (case output_csv s of None \<Rightarrow> [] | Some rows \<Rightarrow> rows) @ [Header_row fieldnames]
      else (case output_csv s of None \<Rightarrow> [] | Some rows \<Rightarrow> rows))") blast
  have "snd (save_results s) = s\<lparr>output_csv := Some csv, events := events s @ []\<rparr>"
    using False w by (simp add: save_results_def Let_def)
  moreover have "rate_limit_sleeps [] = []" by simp
  ultimately show ?thesis by blast
qed

lemma count_list_replicate: "count_list (replicate k x) y = (if x = y then k else 0)"
  by (induction k) auto

text \<open>A run calls the model at most three times for each occurrence of a file in its work list.\<close>

lemma process_files_calls:
  "count_list (calls (snd (outcome_value (process_files E tot idx files pf s)))) g
     \<le> count_list (calls s) g + 3 * count_list files g"
proof (induction files arbitrary: idx pf s)
  case Nil
  then show ?case by simp
next
  case (Cons f rest)
  obtain r s1 where an: "analyze_invoice E f s = (r, s1)" by (cases "analyze_invoice E f s")
  from analyze_invoice_frame[of E f s] an obtain k es where k: "k \<le> 3"
    and s1: "s1 = s\<lparr>calls := calls s @ replicate k f, events := events s @ es\<rparr>"
    by auto
  have c1: "count_list (calls s1) g \<le> count_list (calls s) g + 3 * (if f = g then 1 else 0)"
    using k by (simp add: s1 count_list_replicate)
  define pf' where "pf' = (case r of None \<Rightarrow> pf | Some d \<Rightarrow> pf @ [f])"
  define s2 where "s2 = (case r of None \<Rightarrow> s1\<lparr>failed_count := failed_count s1 + 1\<rparr>
     | Some d \<Rightarrow> s1\<lparr>results := results s1 @ [d], processed_count := processed_count s1 + 1\<rparr>)"
  define s3 where "s3 = save_progress E pf' s2"
  have c3: "calls s3 = calls s1"
    by (simp add: s3_def s2_def save_progress_eq split: option.splits)
  have step: "process_files E tot idx (f # rest) pf s =
     (case save_results s3 of
        (Some e, s4) \<Rightarrow> Raises e (pf', s4)
      | (None, s4) \<Rightarrow>
          process_files E tot (idx + 1) rest pf'
            (if idx < tot then log_event (Sleep_rate_limit DELAY_BETWEEN_REQUESTS) s4 else s4))"
  proof (cases r)
    case None
    with an have an': "analyze_invoice E f s = (None, s1)" by simp
    have eqs: "pf' = pf" "s3 = save_progress E pf (s1\<lparr>failed_count := failed_count s1 + 1\<rparr>)"
      using None by (simp_all add: pf'_def s3_def s2_def)
    show ?thesis unfolding eqs by (rule process_files_failed[OF an'])
  next
    case (Some d)
    with an have an': "analyze_invoice E f s = (Some d, s1)" by simp
    have eqs: "pf' = pf @ [f]"
      "s3 = save_progress E (pf @ [f])
              (s1\<lparr>results := results s1 @ [d], processed_count := processed_count s1 + 1\<rparr>)"
      using Some by (simp_all add: pf'_def s3_def s2_def)
    show ?thesis unfolding eqs by (rule process_files_succeeded[OF an'])
  qed
  obtain err s4 where sr: "save_results s3 = (err, s4)" by (cases "save_results s3")
  from save_results_frame[of s3] sr have c4: "calls s4 = calls s3" by auto
  show ?case
  proof (cases err)
    case (Some e)
    then show ?thesis using step sr c4 c3 c1 by (auto split: if_splits)
  next
    case None
    define s5 where "s5 = (if idx < tot then log_event (Sleep_rate_limit DELAY_BETWEEN_REQUESTS) s4 else s4)"
    have c5: "calls s5 = calls s1" using c4 c3 by (simp add: s5_def log_event_def)
    have "process_files E tot idx (f # rest) pf s = process_files E tot (idx + 1) rest pf' s5"
      using step sr None by (simp add: s5_def)
    then show ?thesis using Cons.IH[of "idx + 1" pf' s5] c5 c1 by (auto split: if_splits)
  qed
qed

lemma process_files_round:
  obtains r s1 pf' s2 err s4 where
    "analyze_invoice E f s = (r, s1)"
    "(r = None \<and> pf' = pf \<and> s2 = s1\<lparr>failed_count := failed_count s1 + 1\<rparr>) \<or>
     (\<exists>d. r = Some d \<and> d \<noteq> [] \<and> pf' = pf @ [f] \<and>
        s2 = s1\<lparr>results := results s1 @ [d], processed_count := processed_count s1 + 1\<rparr>)"
    "save_results (save_progress E pf' s2) = (err, s4)"
    "process_files E tot idx (f # rest) pf s =
       (case err of
          Some e \<Rightarrow> Raises e (pf', s4)
        | None \<Rightarrow>
            process_files E tot (idx + 1) rest pf'
              (if idx < tot then log_event (Sleep_rate_limit DELAY_BETWEEN_REQUESTS) s4 else s4))"
proof -
  obtain r s1 where an: "analyze_invoice E f s = (r, s1)" by (cases "analyze_invoice E f s")
  show thesis
  proof (cases r)
    case None
    with an have an': "analyze_invoice E f s = (None, s1)" by simp
    obtain err s4 where sr:
      "save_results (save_progress E pf (s1\<lparr>failed_count := failed_count s1 + 1\<rparr>)) = (err, s4)"
      by (cases "save_results (save_progress E pf (s1\<lparr>failed_count := failed_count s1 + 1\<rparr>))")
    show thesis
    proof (rule that[OF an _ sr])
      show "(r = None \<and> pf = pf \<and> s1\<lparr>failed_count := failed_count s1 + 1\<rparr> = s1\<lparr>failed_count := failed_count s1 + 1\<rparr>) \<or>
        (\<exists>d. r = Some d \<and> d \<noteq> [] \<and> pf = pf @ [f] \<and>
          s1\<lparr>failed_count := failed_count s1 + 1\<rparr> =
          s1\<lparr>results := results s1 @ [d], processed_count := processed_count s1 + 1\<rparr>)"
        using None by simp
      show "process_files E tot idx (f # rest) pf s =
       (case err of
          Some e \<Rightarrow> Raises e (pf, s4)
        | None \<Rightarrow>
            process_files E tot (idx + 1) rest pf
              (if idx < tot then log_event (Sleep_rate_limit DELAY_BETWEEN_REQUESTS) s4 else s4))"
        unfolding process_files_failed[OF an'] sr by (cases err) simp_all
    qed
  next
    case (Some d)
    with an have an': "analyze_invoice E f s = (Some d, s1)" by simp
    obtain err s4 where sr:
      "save_results (save_progress E (pf @ [f])
         (s1\<lparr>results := results s1 @ [d], processed_count := processed_count s1 + 1\<rparr>)) = (err, s4)"
      by (cases "save_results (save_progress E (pf @ [f])
         (s1\<lparr>results := results s1 @ [d], processed_count := processed_count s1 + 1\<rparr>))")
    show thesis
    proof (rule that[OF an _ sr])
      show "(r = None \<and> pf @ [f] = pf \<and>
          s1\<lparr>results := results s1 @ [d], processed_count := processed_count s1 + 1\<rparr>
          = s1\<lparr>failed_count := failed_count s1 + 1\<rparr>) \<or>
        (\<exists>d'. r = Some d' \<and> d' \<noteq> [] \<and> pf @ [f] = pf @ [f] \<and>
          s1\<lparr>results := results s1 @ [d], processed_count := processed_count s1 + 1\<rparr> =
          s1\<lparr>results := results s1 @ [d'], processed_count := processed_count s1 + 1\<rparr>)"
        using Some analyze_invoice_truthy[OF an'] by simp
      show "process_files E tot idx (f # rest) (pf) s =
       (case err of
          Some e \<Rightarrow> Raises e (pf @ [f], s4)
        | None \<Rightarrow>
            process_files E tot (idx + 1) rest (pf @ [f])
              (if idx < tot then log_event (Sleep_rate_limit DELAY_BETWEEN_REQUESTS) s4 else s4))"
        unfolding process_files_succeeded[OF an'] sr by (cases err) simp_all
    qed
  qed
qed

text \<open>
  When every call signals quota exhaustion, every file of the work list is tried three
  times and counted as failed, and the loop reaches its end.
\<close>

lemma process_files_exhausted:
  assumes ex: "\<And>k h. \<exists>rd. generate_content E k h = Resource_exhausted rd"
    and img: "\<And>h. image_open E h"
    and res: "list_all storable (results s)"
  shows "\<exists>s'. process_files E tot idx files pf s = Returns (pf, s') \<and>
           calls s' = calls s @ concat (map (replicate 3) files) \<and>
           failed_count s' = failed_count s + length files \<and>
           processed_count s' = processed_count s \<and> results s' = results s"
  using res
proof (induction files arbitrary: idx s)
  case Nil
  then show ?case by simp
next
  case (Cons f rest)
  from analyze_invoice_exhausted[of E f s, OF ex img] obtain es where
    an: "analyze_invoice E f s = (None, s\<lparr>calls := calls s @ replicate 3 f, events := events s @ es\<rparr>)"
    by blast
  define s1 where "s1 = s\<lparr>calls := calls s @ replicate 3 f, events := events s @ es\<rparr>"
  define s3 where "s3 = save_progress E pf (s1\<lparr>failed_count := failed_count s1 + 1\<rparr>)"
  have r3: "results s3 = results s" by (simp add: s3_def s1_def save_progress_eq)
  with Cons.prems have "list_all storable (results s3)" by simp
  from save_results_storable[OF this] obtain s4 where sr: "save_results s3 = (None, s4)"
    and f4: "results s4 = results s3" "calls s4 = calls s3" "failed_count s4 = failed_count s3"
      "processed_count s4 = processed_count s3"
    by blast
  define s5 where "s5 = (if idx < tot
     then log_event (Sleep_rate_limit DELAY_BETWEEN_REQUESTS) s4 else s4)"
  have step: "process_files E tot idx (f # rest) pf s = process_files E tot (idx + 1) rest pf s5"
    unfolding process_files_failed[OF an[folded s1_def]] s3_def[symmetric] sr s5_def by simp
  have r5: "results s5 = results s" using r3 f4 by (simp add: s5_def log_event_def)
  have f5: "calls s5 = calls s @ replicate 3 f" "failed_count s5 = failed_count s + 1"
    "processed_count s5 = processed_count s"
    using f4 by (simp_all add: s5_def s3_def s1_def log_event_def save_progress_eq)
  from Cons.prems r5 have "list_all storable (results s5)" by simp
  from Cons.IH[OF this, of "idx + 1"] obtain s' where
    "process_files E tot (idx + 1) rest pf s5 = Returns (pf, s')"
    "calls s' = calls s5 @ concat (map (replicate 3) rest)"
    "failed_count s' = failed_count s5 + length rest"
    "processed_count s' = processed_count s5" "results s' = results s5"
    by blast
  then show ?case using step f5 r5 by simp
qed

lemma distinct_count_list: "distinct xs \<Longrightarrow> count_list xs g \<le> 1"
  by (induction xs) auto

lemma distinct_slice_to: "distinct xs \<Longrightarrow> distinct (slice_to m xs)"
  by (simp add: slice_to_def)

lemma distinct_remaining_files:
  "distinct names \<Longrightarrow> distinct (remaining_files mf names pf)"
  by (simp add: remaining_files_def Let_def distinct_slice_to split: option.splits)

lemma distinct_image_names:
  "distinct (map name listing) \<Longrightarrow> distinct (map name (image_files listing))"
  by (simp add: image_files_def distinct_map_filter)

lemma process_all_calls:
  assumes "distinct (map name listing)"
  shows "count_list (calls (outcome_value (process_all E mf listing s))) g \<le> count_list (calls s) g + 3"
proof (cases "image_files listing = []")
  case True
  then show ?thesis by (simp add: process_all_def log_event_def)
next
  case False
  show ?thesis
  proof (cases "load_progress s")
    case (Inl e)
    then show ?thesis using False by (simp add: process_all_def)
  next
    case (Inr pf)
    define remaining where "remaining = remaining_files mf (map name (image_files listing)) pf"
    have d: "count_list remaining g \<le> 1"
      unfolding remaining_def
      by (intro distinct_count_list distinct_remaining_files distinct_image_names assms)
    have "outcome_value (process_all E mf listing s) =
        snd (outcome_value (process_files E (length remaining) 1 remaining pf s))"
      using False Inr
      by (cases "process_files E (length remaining) 1 remaining pf s")
         (auto simp: process_all_def Let_def remaining_def)
    then show ?thesis
      using process_files_calls[of E "length remaining" 1 remaining pf s g] d by simp
  qed
qed

subsection \<open>What the store accepts\<close>

lemma map_of_key: "map_of d k = Some v \<Longrightarrow> k \<in> fst ` set d"
  by (force dest: map_of_SomeD)

lemma join_items_found_keys:
  "join_items_found d = Inr r \<Longrightarrow> map fst r = map fst d"
  by (auto simp: join_items_found_def update_keys map_of_key
           split: option.splits json.splits)

lemma writerow_exceptions: "writerow d = Inl e \<Longrightarrow> e = TypeError \<or> e = ValueError"
  by (auto simp: writerow_def join_items_found_def dict_to_list_def
           split: sum.splits option.splits json.splits if_splits)

lemma storable_keys:
  "storable d \<Longrightarrow> list_all (\<lambda>k. k \<in> set fieldnames) (map fst d)"
  by (auto simp: storable_def writerow_def dict_to_list_def
           split: sum.splits if_splits dest: join_items_found_keys)

lemma extra_key_not_storable:
  assumes "k \<in> set (map fst d)" "k \<notin> set fieldnames"
  shows "\<not> storable d"
  using storable_keys[of d] assms by (auto simp: list_all_iff)

lemma write_rows_raises:
  "\<not> list_all storable rs \<Longrightarrow>
   \<exists>e rows. write_rows rs csv = (Some e, rows) \<and> (e = TypeError \<or> e = ValueError)"
proof (induction rs arbitrary: csv)
  case Nil
  then show ?case by simp
next
  case (Cons r rs)
  show ?case
  proof (cases "writerow r")
    case (Inl e)
    then show ?thesis using writerow_exceptions[OF Inl] by simp
  next
    case (Inr row)
    then have "storable r" by (simp add: storable_def)
    with Cons.prems have "\<not> list_all storable rs" by simp
    from Cons.IH[OF this, of "csv @ [row]"] show ?thesis using Inr by simp
  qed
qed

lemma save_results_raises:
  assumes "\<not> list_all storable (results s)"
  shows "\<exists>e s'. save_results s = (Some e, s') \<and> (e = TypeError \<or> e = ValueError)
           \<and> failed_count s' = failed_count s \<and> processed_count s' = processed_count s
           \<and> calls s' = calls s \<and> progress_file s' = progress_file s"
proof -
  from assms have ne: "results s \<noteq> []" by auto
  define headed where "headed = (if \<not> (case output_csv s of None \<Rightarrow> False | Some rows \<Rightarrow> rows \<noteq> [])
      then (case output_csv s of None \<Rightarrow> [] | Some rows \<Rightarrow> rows) @ [Header_row fieldnames]
      else (case output_csv s of None \<Rightarrow> [] | Some rows \<Rightarrow> rows))"
  from write_rows_raises[OF assms, of headed] obtain e rows where
    w: "write_rows (results s) headed = (Some e, rows)" and e: "e = TypeError \<or> e = ValueError"
    by blast
  have "save_results s = (Some e, s\<lparr>output_csv := Some rows\<rparr>)"
    using ne w by (simp add: save_results_def Let_def headed_def)
  then show ?thesis using e by simp
qed

lemma save_results_returns_storable:
  "save_results s = (None, s') \<Longrightarrow> list_all storable (results s)"
  using save_results_raises[of s] by fastforce

text \<open>A loop that reaches its end has written every result it holds.\<close>

lemma process_files_results_storable:
  "process_files E tot idx files pf s = Returns (pf', s') \<Longrightarrow> list_all storable (results s) \<Longrightarrow>
   list_all storable (results s')"
proof (induction files arbitrary: idx pf s)
  case Nil
  then show ?case by simp
next
  case (Cons f rest)
  obtain r s1 pf1 s2 err s4 where
    an: "analyze_invoice E f s = (r, s1)"
    and sr: "save_results (save_progress E pf1 s2) = (err, s4)"
    and step: "process_files E tot idx (f # rest) pf s =
       (case err of
          Some e \<Rightarrow> Raises e (pf1, s4)
        | None \<Rightarrow>
            process_files E tot (idx + 1) rest pf1
              (if idx < tot then log_event (Sleep_rate_limit DELAY_BETWEEN_REQUESTS) s4 else s4))"
    by (rule process_files_round[where E=E and f=f and s=s and pf=pf and rest=rest
          and tot=tot and idx=idx]) blast
  from step Cons.prems(1) have none: "err = None" by (cases err) simp_all
  from sr none have "list_all storable (results (save_progress E pf1 s2))"
    by (simp add: save_results_returns_storable)
  moreover from save_results_frame[of "save_progress E pf1 s2"] sr
  have "results s4 = results (save_progress E pf1 s2)" by auto
  ultimately have st4: "list_all storable (results s4)" by simp
  define s5 where "s5 = (if idx < tot then log_event (Sleep_rate_limit DELAY_BETWEEN_REQUESTS) s4 else s4)"
  have st5: "list_all storable (results s5)" using st4 by (simp add: s5_def log_event_def)
  have "process_files E tot (idx + 1) rest pf1 s5 = Returns (pf', s')"
    using step none Cons.prems(1) by (simp add: s5_def)
  from Cons.IH[OF this st5] show ?case .
qed

section \<open>The claims\<close>

subsection \<open>C7: the work set\<close>

text \<open>
  Without a maximum, and with a positive one, the work set is what the claim says: the
  enumerated names outside the ledger, in enumeration order, cut to the first
  \<open>max_files\<close>.
\<close>

lemma remaining_files_positive:
  "remaining_files None names pf = filter (\<lambda>f. f \<notin> set pf) names"
  "0 < m \<Longrightarrow> remaining_files (Some m) names pf = take (nat m) (filter (\<lambda>f. f \<notin> set pf) names)"
  by (simp_all add: remaining_files_def slice_to_def)

text \<open>
  C7. The claim: the work set is the enumerated items minus the ledger's identifiers in
  enumeration order, cut to its first max-count elements when a maximum is given. The
  code tests \<^verbatim>\<open>if max_files:\<close>, so a maximum of zero is taken for no maximum: with
  \<^verbatim>\<open>max_files=0\<close> and two images outside the ledger the work set is both images, not
  the first zero of them.
\<close>

theorem max_files_zero_keeps_all:
  "remaining_files (Some 0) [''a.jpg'', ''b.jpg''] [] = [''a.jpg'', ''b.jpg'']"
  by (simp add: remaining_files_def)

subsection \<open>C1: rows of the result file\<close>

text \<open>
  C1. The claim: after \<open>n\<close> successful items the result file holds one header and \<open>n\<close>
  data rows, one per item. \<^verbatim>\<open>save_results\<close> appends the whole of \<^verbatim>\<open>self.results\<close>
  after every item and the list is never emptied: with two images that both succeed, the
  file ends with one header and three data rows, the first image's row twice.
\<close>

theorem second_save_repeats_first_row:
  "output_csv (outcome_value
     (process_all (example_env (\<lambda>f. Text ''{}'')) None [jpg ''a.jpg'', jpg ''b.jpg''] new_folder)) =
     Some [Header_row fieldnames, empty_row ''a.jpg'', empty_row ''a.jpg'', empty_row ''b.jpg'']
   \<and> processed_count (outcome_value
     (process_all (example_env (\<lambda>f. Text ''{}'')) None [jpg ''a.jpg'', jpg ''b.jpg''] new_folder)) = 2"
  by code_simp

subsection \<open>C2: the retry bound\<close>

text \<open>
  C2. In one run the model is called at most three times for any one file of the input
  folder (its names being distinct). When every call signals quota exhaustion, the
  analysis of a file makes exactly three calls and returns \<^verbatim>\<open>None\<close> instead of raising,
  and the loop goes on through every file of its work list, three calls for each, all
  counted as failed.
\<close>

theorem at_most_three_calls_per_item:
  "(distinct (map name listing) \<longrightarrow>
      count_list (calls (outcome_value (process_all E max_files listing s))) g
        \<le> count_list (calls s) g + 3)
   \<and> ((\<forall>k h. \<exists>rd. generate_content E k h = Resource_exhausted rd) \<and> (\<forall>h. image_open E h)
        \<and> list_all storable (results s) \<longrightarrow>
        fst (analyze_invoice E f s) = None
      \<and> calls (snd (analyze_invoice E f s)) = calls s @ [f, f, f]
      \<and> (\<exists>s'. process_files E tot idx files pf s = Returns (pf, s')
            \<and> calls s' = calls s @ concat (map (replicate 3) files)
            \<and> failed_count s' = failed_count s + length files
            \<and> processed_count s' = processed_count s))"
proof (intro conjI impI)
  assume "distinct (map name listing)"
  then show "count_list (calls (outcome_value (process_all E max_files listing s))) g
        \<le> count_list (calls s) g + 3"
    by (rule process_all_calls)
next
  assume h: "(\<forall>k h. \<exists>rd. generate_content E k h = Resource_exhausted rd) \<and> (\<forall>h. image_open E h)
        \<and> list_all storable (results s)"
  then have ex: "\<And>k h. \<exists>rd. generate_content E k h = Resource_exhausted rd"
    and img: "\<And>h. image_open E h" and st: "list_all storable (results s)"
    by blast+
  from analyze_invoice_exhausted[of E f s, OF ex img] obtain es where
    an: "analyze_invoice E f s = (None, s\<lparr>calls := calls s @ replicate 3 f, events := events s @ es\<rparr>)"
    by blast
  show "fst (analyze_invoice E f s) = None" by (simp add: an)
  show "calls (snd (analyze_invoice E f s)) = calls s @ [f, f, f]"
    by (simp add: an numeral_3_eq_3)
  from process_files_exhausted[of E s tot idx files pf, OF ex img st]
  show "\<exists>s'. process_files E tot idx files pf s = Returns (pf, s')
            \<and> calls s' = calls s @ concat (map (replicate 3) files)
            \<and> failed_count s' = failed_count s + length files
            \<and> processed_count s' = processed_count s"
    by blast
qed

theorem at_most_three_calls_per_item_witness:
  "distinct (map name [jpg ''a.jpg'', jpg ''b.jpg''])
   \<and> count_list (calls (outcome_value
        (process_all (example_env (\<lambda>f. Resource_exhausted None)) None
           [jpg ''a.jpg'', jpg ''b.jpg''] new_folder))) ''a.jpg'' \<le> 3
   \<and> (\<forall>k h. generate_content (example_env (\<lambda>f. Resource_exhausted None)) k h = Resource_exhausted None)
   \<and> (\<forall>h. image_open (example_env (\<lambda>f. Resource_exhausted None)) h)
   \<and> list_all storable (results new_folder)
   \<and> fst (analyze_invoice (example_env (\<lambda>f. Resource_exhausted None)) ''a.jpg'' new_folder) = None
   \<and> calls (snd (analyze_invoice (example_env (\<lambda>f. Resource_exhausted None)) ''a.jpg'' new_folder))
        = [''a.jpg'', ''a.jpg'', ''a.jpg'']
   \<and> (\<exists>s'. process_files (example_env (\<lambda>f. Resource_exhausted None)) 2 1 [''a.jpg'', ''b.jpg''] [] new_folder
              = Returns ([], s')
          \<and> calls s' = [''a.jpg'', ''a.jpg'', ''a.jpg'', ''b.jpg'', ''b.jpg'', ''b.jpg'']
          \<and> failed_count s' = 2 \<and> processed_count s' = 0)"
  using at_most_three_calls_per_item[of "[jpg ''a.jpg'', jpg ''b.jpg'']"
      "example_env (\<lambda>f. Resource_exhausted None)" None new_folder "''a.jpg''" "''a.jpg''"
      2 1 "[''a.jpg'', ''b.jpg'']" "[]"]
  by (simp add: example_env_def new_folder_def jpg_def numeral_3_eq_3 numeral_2_eq_2)

subsection \<open>C3: saving the ledger\<close>

text \<open>
  C3, as claimed: a crash at any point of a save leaves a decodable ledger. It does not:
  the save opens \<^verbatim>\<open>progress.json\<close> itself for writing, which empties it, and there is
  no temporary file and no rename. A process that dies after that first step leaves a
  torn file where a good ledger stood, and the next \<^verbatim>\<open>load_progress\<close> raises.
\<close>

theorem save_interrupted_counterexample:
  "load_progress one_done = Inr [''a.jpg'']
   \<and> progress_file (save_progress_interrupted 1 (example_env (\<lambda>f. Text ''{}''))
        [''a.jpg'', ''b.jpg''] one_done) = Torn
   \<and> load_progress (save_progress_interrupted 1 (example_env (\<lambda>f. Text ''{}''))
        [''a.jpg'', ''b.jpg''] one_done) = Inl JSONDecodeError"
  by (simp add: save_progress_interrupted_def save_progress_steps_def open_w_def
      load_progress_def one_done_def new_folder_def)

text \<open>
  C3, amended. A save rewrites the ledger in place in two steps. Before the first the
  file is untouched; after the first it is torn and does not load; after the second,
  which is the whole of \<^verbatim>\<open>save_progress\<close>, it holds exactly the list of completed
  files it was given, with the timestamp read from the clock during this save, and
  nothing else of the processor but the count of clock readings has changed.
\<close>

theorem save_progress_in_place:
  "save_progress_interrupted 0 E pf s = s
   \<and> save_progress_interrupted 1 E pf s = s\<lparr>progress_file := Torn\<rparr>
   \<and> load_progress (save_progress_interrupted 1 E pf s) = Inl JSONDecodeError
   \<and> save_progress_interrupted (Suc (Suc k)) E pf s = save_progress E pf s
   \<and> save_progress E pf s =
       s\<lparr>progress_file := Saved \<lparr>processed = pf, last_updated = now E (clock_reads s)\<rparr>,
         clock_reads := clock_reads s + 1\<rparr>
   \<and> load_progress (save_progress E pf s) = Inr pf"
  by (simp add: save_progress_interrupted_def save_progress_def save_progress_steps_def
      open_w_def json_dump_def load_progress_def)

subsection \<open>C10: a result with a field the store does not know\<close>

text \<open>
  C10. Let the analysis of a file succeed with a record that has a key outside the ten
  field names. Then the round raises out of the loop, \<^verbatim>\<open>ValueError\<close> from the CSV
  writer (or \<^verbatim>\<open>TypeError\<close> from the join of \<^verbatim>\<open>items_found\<close>): the rest of the work list
  is not tried, and the failure counter is not raised; the item had been counted as
  processed. Seen from the whole run: a run of \<^verbatim>\<open>process_all\<close> on a new processor that
  returns holds no record with a key outside the field names.
\<close>

theorem unknown_field_aborts_run:
  "(analyze_invoice E f s = (Some d, s1) \<and> k \<in> set (map fst d) \<and> k \<notin> set fieldnames \<longrightarrow>
      (\<exists>e s'. process_files E tot idx (f # rest) pf s = Raises e (pf @ [f], s')
         \<and> (e = ValueError \<or> e = TypeError)
         \<and> failed_count s' = failed_count s
         \<and> processed_count s' = processed_count s + 1
         \<and> calls s' = calls s1))
   \<and> (results s = [] \<and> process_all E max_files listing s = Returns s2 \<longrightarrow>
        list_all (\<lambda>r. list_all (\<lambda>k. k \<in> set fieldnames) (map fst r)) (results s2))"
proof (intro conjI impI)
  assume h: "analyze_invoice E f s = (Some d, s1) \<and> k \<in> set (map fst d) \<and> k \<notin> set fieldnames"
  then have an: "analyze_invoice E f s = (Some d, s1)" and
    bad: "\<not> storable d" using extra_key_not_storable[of k d] by simp_all
  from analyze_invoice_frame[of E f s] an obtain n es where
    s1: "s1 = s\<lparr>calls := calls s @ replicate n f, events := events s @ es\<rparr>"
    by auto
  define s3 where "s3 = save_progress E (pf @ [f])
       (s1\<lparr>results := results s1 @ [d], processed_count := processed_count s1 + 1\<rparr>)"
  have "\<not> list_all storable (results s3)"
    using bad by (simp add: s3_def save_progress_eq)
  from save_results_raises[OF this] obtain e s4 where sr: "save_results s3 = (Some e, s4)"
    and e: "e = TypeError \<or> e = ValueError"
    and f4: "failed_count s4 = failed_count s3" "processed_count s4 = processed_count s3"
      "calls s4 = calls s3"
    by blast
  have "process_files E tot idx (f # rest) pf s = Raises e (pf @ [f], s4)"
    unfolding process_files_succeeded[OF an] s3_def[symmetric] sr by simp
  moreover have "failed_count s4 = failed_count s" "processed_count s4 = processed_count s + 1"
    "calls s4 = calls s1"
    using f4 by (simp_all add: s3_def s1 save_progress_eq)
  ultimately show "\<exists>e s'. process_files E tot idx (f # rest) pf s = Raises e (pf @ [f], s')
         \<and> (e = ValueError \<or> e = TypeError)
         \<and> failed_count s' = failed_count s
         \<and> processed_count s' = processed_count s + 1
         \<and> calls s' = calls s1"
    using e by blast
next
  assume h: "results s = [] \<and> process_all E max_files listing s = Returns s2"
  then have st: "list_all storable (results s)" by simp
  have "list_all storable (results s2)"
  proof (cases "image_files listing = []")
    case True
    with h show ?thesis by (auto simp: process_all_def log_event_def)
  next
    case False
    show ?thesis
    proof (cases "load_progress s")
      case (Inl e)
      with h False show ?thesis by (simp add: process_all_def)
    next
      case (Inr pf)
      define remaining where "remaining = remaining_files max_files (map name (image_files listing)) pf"
      from h False Inr obtain pf' where
        "process_files E (length remaining) 1 remaining pf s = Returns (pf', s2)"
        by (auto simp: process_all_def Let_def remaining_def split: outcome.splits)
      from process_files_results_storable[OF this st] show ?thesis .
    qed
  qed
  then show "list_all (\<lambda>r. list_all (\<lambda>k. k \<in> set fieldnames) (map fst r)) (results s2)"
    using storable_keys by (fastforce simp: list_all_iff)
qed

theorem unknown_field_aborts_run_witness:
  "analyze_invoice (example_env (\<lambda>f. Text ''{\"vat\": \"8%\"}'')) ''a.jpg'' new_folder =
     (Some [(''vat'', JStr ''8%''), (''invoice_file'', JStr ''a.jpg'')],
      new_folder\<lparr>calls := [''a.jpg'']\<rparr>)
   \<and> ''vat'' \<in> set (map fst [(''vat'', JStr ''8%''), (''invoice_file'', JStr ''a.jpg'')])
   \<and> ''vat'' \<notin> set fieldnames
   \<and> (\<exists>e s'. process_files (example_env (\<lambda>f. Text ''{\"vat\": \"8%\"}'')) 2 1
                 [''a.jpg'', ''b.jpg''] [] new_folder = Raises e ([''a.jpg''], s')
         \<and> (e = ValueError \<or> e = TypeError)
         \<and> failed_count s' = 0 \<and> processed_count s' = 1 \<and> calls s' = [''a.jpg''])
   \<and> results new_folder = []
   \<and> process_all (example_env (\<lambda>f. Text ''{}'')) None [jpg ''a.jpg''] new_folder =
       Returns (outcome_value (process_all (example_env (\<lambda>f. Text ''{}'')) None [jpg ''a.jpg''] new_folder))
   \<and> list_all (\<lambda>r. list_all (\<lambda>k. k \<in> set fieldnames) (map fst r))
       (results (outcome_value (process_all (example_env (\<lambda>f. Text ''{}'')) None [jpg ''a.jpg''] new_folder)))"
proof -
  have h1: "analyze_invoice (example_env (\<lambda>f. Text ''{\"vat\": \"8%\"}'')) ''a.jpg'' new_folder =
     (Some [(''vat'', JStr ''8%''), (''invoice_file'', JStr ''a.jpg'')],
      new_folder\<lparr>calls := [''a.jpg'']\<rparr>)"
    by code_simp
  have h2: "''vat'' \<in> set (map fst [(''vat'', JStr ''8%''), (''invoice_file'', JStr ''a.jpg'')])"
    by simp
  have h3: "''vat'' \<notin> set fieldnames"
    by (simp add: fieldnames_def)
  have nf: "failed_count new_folder = 0" "processed_count new_folder = 0" "results new_folder = []"
    by (simp_all add: new_folder_def)
  have h4: "process_all (example_env (\<lambda>f. Text ''{}'')) None [jpg ''a.jpg''] new_folder =
       Returns (outcome_value (process_all (example_env (\<lambda>f. Text ''{}'')) None [jpg ''a.jpg''] new_folder))"
    by code_simp
  note th = unknown_field_aborts_run[of
      "example_env (\<lambda>f. Text ''{\"vat\": \"8%\"}'')" "''a.jpg''" new_folder
      "[(''vat'', JStr ''8%''), (''invoice_file'', JStr ''a.jpg'')]"
      "new_folder\<lparr>calls := [''a.jpg'']\<rparr>" "''vat''" 2 1 "[''b.jpg'']" "[]"]
  note th2 = unknown_field_aborts_run[where s = new_folder
      and E = "example_env (\<lambda>f. Text ''{}'')" and max_files = None and listing = "[jpg ''a.jpg'']"
      and ?s2.0 = "outcome_value (process_all (example_env (\<lambda>f. Text ''{}'')) None [jpg ''a.jpg''] new_folder)"]
  from th h1 h2 h3 have a: "\<exists>e s'. process_files (example_env (\<lambda>f. Text ''{\"vat\": \"8%\"}'')) 2 1
                 [''a.jpg'', ''b.jpg''] [] new_folder = Raises e ([''a.jpg''], s')
         \<and> (e = ValueError \<or> e = TypeError)
         \<and> failed_count s' = 0 \<and> processed_count s' = 1 \<and> calls s' = [''a.jpg'']"
    by (simp add: nf)
  from th2 h4 nf have b: "list_all (\<lambda>r. list_all (\<lambda>k. k \<in> set fieldnames) (map fst r))
       (results (outcome_value (process_all (example_env (\<lambda>f. Text ''{}'')) None [jpg ''a.jpg''] new_folder)))"
    by blast
  show ?thesis using h1 h2 h3 a nf(3) h4 b by blast
qed

subsection \<open>C6: a second run\<close>

text \<open>
  What a loop that reaches its end leaves behind: the failure counter has not gone
  down; if it has not gone up, every file of the work list was added to the list of
  completed files; and that list is what the ledger on disk holds.
\<close>

lemma process_files_ledger:
  "process_files E tot idx files pf s = Returns (pf', s') \<Longrightarrow>
   failed_count s \<le> failed_count s'
   \<and> (failed_count s' = failed_count s \<longrightarrow> pf' = pf @ files)
   \<and> (files \<noteq> [] \<longrightarrow> load_progress s' = Inr pf')
   \<and> (files = [] \<longrightarrow> s' = s \<and> pf' = pf)"
proof (induction files arbitrary: idx pf s)
  case Nil
  then show ?case by simp
next
  case (Cons f rest)
  obtain r s1 pf1 s2 err s4 where
    an: "analyze_invoice E f s = (r, s1)"
    and s2: "(r = None \<and> pf1 = pf \<and> s2 = s1\<lparr>failed_count := failed_count s1 + 1\<rparr>) \<or>
     (\<exists>d. r = Some d \<and> d \<noteq> [] \<and> pf1 = pf @ [f] \<and>
        s2 = s1\<lparr>results := results s1 @ [d], processed_count := processed_count s1 + 1\<rparr>)"
    and sr: "save_results (save_progress E pf1 s2) = (err, s4)"
    and step: "process_files E tot idx (f # rest) pf s =
       (case err of
          Some e \<Rightarrow> Raises e (pf1, s4)
        | None \<Rightarrow>
            process_files E tot (idx + 1) rest pf1
              (if idx < tot then log_event (Sleep_rate_limit DELAY_BETWEEN_REQUESTS) s4 else s4))"
    by (rule process_files_round[where E=E and f=f and s=s and pf=pf and rest=rest
          and tot=tot and idx=idx]) blast
  from step Cons.prems(1) have none: "err = None" by (cases err) simp_all
  from analyze_invoice_frame[of E f s] an have f1: "failed_count s1 = failed_count s"
    by auto
  define s5 where "s5 = (if idx < tot then log_event (Sleep_rate_limit DELAY_BETWEEN_REQUESTS) s4 else s4)"
  from save_results_frame[of "save_progress E pf1 s2"] sr
  have f5: "failed_count s5 = failed_count s2" and l5: "load_progress s5 = Inr pf1"
    by (auto simp: s5_def log_event_def save_progress_eq load_progress_def)
  have cases2: "(pf1 = pf \<and> failed_count s5 = failed_count s + 1) \<or>
      (pf1 = pf @ [f] \<and> failed_count s5 = failed_count s)"
    using s2 f1 f5 by auto
  have run: "process_files E tot (idx + 1) rest pf1 s5 = Returns (pf', s')"
    using step none Cons.prems(1) by (simp add: s5_def)
  from Cons.IH[OF run] have ih: "failed_count s5 \<le> failed_count s'"
    "failed_count s' = failed_count s5 \<longrightarrow> pf' = pf1 @ rest"
    "rest \<noteq> [] \<longrightarrow> load_progress s' = Inr pf'"
    "rest = [] \<longrightarrow> s' = s5 \<and> pf' = pf1"
    by simp_all
  have "failed_count s \<le> failed_count s'" using cases2 ih(1) by auto
  moreover have "failed_count s' = failed_count s \<longrightarrow> pf' = pf @ f # rest"
    using cases2 ih(1,2) by auto
  moreover have "load_progress s' = Inr pf'" using ih(3,4) l5 by (cases rest) auto
  ultimately show ?case by simp
qed

text \<open>
  C6, as claimed: after a run that completes, a second run on the unchanged folder finds
  nothing to do. It does when an item failed: the one image's answer does not decode, the
  run returns with one failure and an empty ledger, and the second run has the image in
  its work set and calls the model for it again.
\<close>

theorem second_run_counterexample:
  "process_all (example_env (\<lambda>f. Text ''Sorry, no invoice here'')) None [jpg ''a.jpg''] new_folder
     = Returns after_failed_run
   \<and> failed_count after_failed_run = 1
   \<and> load_progress (InvoiceProcessor_init after_failed_run) = Inr []
   \<and> remaining_files None (map name (image_files [jpg ''a.jpg''])) [] = [''a.jpg'']
   \<and> calls (outcome_value
        (process_all (example_env (\<lambda>f. Text ''Sorry, no invoice here'')) None [jpg ''a.jpg'']
           (InvoiceProcessor_init after_failed_run)))
       = [''a.jpg'', ''a.jpg'']"
  by code_simp

text \<open>
  C6, amended. Let a run of \<^verbatim>\<open>process_all\<close> return with no item failed and with its
  work set not cut by \<^verbatim>\<open>max_files\<close>. Then a second run by a new processor on the same
  listing and the same output folder, whatever its \<^verbatim>\<open>max_files\<close> and whatever the model
  would answer, loads a ledger that leaves no file to do, and returns without a call to
  the model and without a write to either file.
\<close>

theorem second_run_does_nothing:
  assumes run1: "process_all E max_files listing s = Returns s1"
    and lp: "load_progress s = Inr pf"
    and nofail: "failed_count s1 = failed_count s"
    and uncut: "remaining_files max_files (map name (image_files listing)) pf =
                remaining_files None (map name (image_files listing)) pf"
  shows "\<exists>pf1 s2.
           load_progress (InvoiceProcessor_init s1) = Inr pf1
         \<and> remaining_files max_files2 (map name (image_files listing)) pf1 = []
         \<and> process_all E2 max_files2 listing (InvoiceProcessor_init s1) = Returns s2
         \<and> calls s2 = calls s1
         \<and> progress_file s2 = progress_file s1
         \<and> output_csv s2 = output_csv s1
         \<and> processed_count s2 = 0 \<and> failed_count s2 = 0"
proof -
  define names where "names = map name (image_files listing)"
  define remaining where "remaining = remaining_files max_files names pf"
  have rem: "remaining = filter (\<lambda>f. f \<notin> set pf) names"
    using uncut by (simp add: remaining_def names_def remaining_files_def)
  have ex: "\<exists>pf1. load_progress s1 = Inr pf1 \<and> set names \<subseteq> set pf1"
  proof (cases "image_files listing = []")
    case True
    with run1 have "s1 = log_event Error_no_image_files s" by (simp add: process_all_def)
    then have "load_progress s1 = Inr pf" using lp by (simp add: load_progress_def log_event_def)
    moreover have "names = []" using True by (simp add: names_def)
    ultimately show ?thesis by simp
  next
    case False
    with run1 lp obtain pf' where
      pr: "process_files E (length remaining) 1 remaining pf s = Returns (pf', s1)"
      by (auto simp: process_all_def Let_def remaining_def names_def split: outcome.splits)
    from process_files_ledger[OF pr] nofail have
      pf': "pf' = pf @ remaining" and
      l: "remaining \<noteq> [] \<longrightarrow> load_progress s1 = Inr pf'" and
      e: "remaining = [] \<longrightarrow> s1 = s \<and> pf' = pf"
      by simp_all
    have "load_progress s1 = Inr pf'" using l e lp by (cases remaining) auto
    moreover have "set names \<subseteq> set pf'" using pf' rem by auto
    ultimately show ?thesis by blast
  qed
  then obtain pf1 where l1: "load_progress s1 = Inr pf1" and sub: "set names \<subseteq> set pf1" by blast
  have l2: "load_progress (InvoiceProcessor_init s1) = Inr pf1"
    using l1 by (simp add: load_progress_def InvoiceProcessor_init_def)
  have "filter (\<lambda>f. f \<notin> set pf1) names = []" using sub by (auto simp: filter_empty_conv)
  then have r2: "remaining_files max_files2 names pf1 = []"
    by (simp add: remaining_files_def slice_to_def split: option.splits)
  have "\<exists>s2. process_all E2 max_files2 listing (InvoiceProcessor_init s1) = Returns s2
         \<and> calls s2 = calls s1 \<and> progress_file s2 = progress_file s1
         \<and> output_csv s2 = output_csv s1 \<and> processed_count s2 = 0 \<and> failed_count s2 = 0"
  proof (cases "image_files listing = []")
    case True
    then show ?thesis by (simp add: process_all_def log_event_def InvoiceProcessor_init_def)
  next
    case False
    then show ?thesis using l2 r2
      by (simp add: process_all_def Let_def names_def InvoiceProcessor_init_def)
  qed
  then show ?thesis using l2 r2 by (auto simp: names_def)
qed

theorem second_run_does_nothing_witness:
  "process_all (example_env (\<lambda>f. Text ''{}'')) None [jpg ''a.jpg'', jpg ''b.jpg''] new_folder =
     Returns (outcome_value
       (process_all (example_env (\<lambda>f. Text ''{}'')) None [jpg ''a.jpg'', jpg ''b.jpg''] new_folder))
   \<and> load_progress new_folder = Inr []
   \<and> failed_count (outcome_value
       (process_all (example_env (\<lambda>f. Text ''{}'')) None [jpg ''a.jpg'', jpg ''b.jpg''] new_folder))
       = failed_count new_folder
   \<and> (\<exists>pf1 s2.
         load_progress (InvoiceProcessor_init (outcome_value
           (process_all (example_env (\<lambda>f. Text ''{}'')) None [jpg ''a.jpg'', jpg ''b.jpg''] new_folder)))
           = Inr pf1
       \<and> remaining_files None (map name (image_files [jpg ''a.jpg'', jpg ''b.jpg''])) pf1 = []
       \<and> process_all (example_env (\<lambda>f. Text ''{}'')) None [jpg ''a.jpg'', jpg ''b.jpg'']
           (InvoiceProcessor_init (outcome_value
             (process_all (example_env (\<lambda>f. Text ''{}'')) None [jpg ''a.jpg'', jpg ''b.jpg''] new_folder)))
           = Returns s2
       \<and> calls s2 = [''a.jpg'', ''b.jpg''])"
proof -
  define s1 where "s1 = outcome_value
       (process_all (example_env (\<lambda>f. Text ''{}'')) None [jpg ''a.jpg'', jpg ''b.jpg''] new_folder)"
  have h1: "process_all (example_env (\<lambda>f. Text ''{}'')) None [jpg ''a.jpg'', jpg ''b.jpg''] new_folder =
     Returns s1"
    unfolding s1_def by code_simp
  have h2: "load_progress new_folder = Inr []"
    by (simp add: load_progress_def new_folder_def)
  have h3: "failed_count s1 = failed_count new_folder"
    unfolding s1_def by code_simp
  have c: "calls s1 = [''a.jpg'', ''b.jpg'']"
    unfolding s1_def by code_simp
  from second_run_does_nothing[OF h1 h2 h3 refl, of None "example_env (\<lambda>f. Text ''{}'')"]
  show ?thesis using h1 h2 h3 unfolding s1_def[symmetric] c by auto
qed

subsection \<open>C4: code fences\<close>

lemma dropWhile_padding:
  "list_all P pre \<Longrightarrow> xs \<noteq> [] \<Longrightarrow> \<not> P (hd xs) \<Longrightarrow> dropWhile P (pre @ xs) = xs"
  by (induction pre) (auto simp: neq_Nil_conv)

lemma py_strip_padding:
  assumes "list_all py_isspace pre" "list_all py_isspace post"
    and "xs \<noteq> []" "\<not> py_isspace (hd xs)" "\<not> py_isspace (last xs)"
  shows "py_strip (pre @ xs @ post) = xs"
proof -
  have "dropWhile py_isspace (pre @ xs @ post) = xs @ post"
    using assms by (intro dropWhile_padding) (auto simp: hd_append)
  moreover have "dropWhile py_isspace (rev post @ rev xs) = rev xs"
    using assms by (intro dropWhile_padding) (auto simp: hd_rev list_all_iff)
  ultimately show ?thesis by (simp add: py_strip_def)
qed

lemma replace_absent:
  "old \<noteq> [] \<Longrightarrow> \<not> contains s old \<Longrightarrow> replace old new s = s"
  by (induction s) auto

lemma replace_closing_fence:
  "\<not> contains body ''```'' \<Longrightarrow> replace ''```'' [] (body @ ''```'') = body"
proof (induction body)
  case Nil
  show ?case by (simp add: startswith_def)
next
  case (Cons c cs)
  then have ns: "\<not> startswith (c # cs) ''```''" and nc: "\<not> contains cs ''```''"
    by simp_all
  show ?case
  proof (cases "startswith (c # cs @ ''```'') ''```''")
    case False
    then show ?thesis using Cons.IH[OF nc] by simp
  next
    case True
    then consider "c # cs = ''`''" | "c # cs = ''``''"
      using ns by (cases cs; cases "tl cs") (auto simp: startswith_def)
    then show ?thesis
      by cases (simp_all add: startswith_def)
  qed
qed

lemma no_tagged_fence:
  "\<not> contains body ''```'' \<Longrightarrow> \<not> contains (body @ ''```'') ''```json''"
proof (induction body)
  case Nil
  show ?case by (simp add: startswith_def)
next
  case (Cons c cs)
  then have ns: "\<not> startswith (c # cs) ''```''" and nc: "\<not> contains cs ''```''"
    by simp_all
  have "\<not> startswith (c # cs @ ''```'') ''```json''"
    using ns by (cases cs; cases "tl cs") (auto simp: startswith_def)
  then show ?case using Cons.IH[OF nc] by simp
qed

text \<open>
  A text wrapped in one opening fence, tagged or not, and one closing fence, with
  blanks around, and with no triple backquote of its own, comes out of the removal as that text, stripped.
\<close>

lemma remove_code_blocks_wrapped:
  assumes "list_all py_isspace pre" "list_all py_isspace post"
    and "fence = ''```json'' \<or> (fence = ''```'' \<and> \<not> startswith body ''json'')"
    and "\<not> contains body ''```''"
  shows "remove_code_blocks (py_strip (pre @ fence @ body @ ''```'' @ post)) = py_strip body"
proof -
  have fence: "fence \<noteq> []" "hd fence = CHR 0x60" using assms(3) by auto
  have "py_strip (pre @ (fence @ body @ ''```'') @ post) = fence @ body @ ''```''"
    using assms(1,2) fence by (intro py_strip_padding) (auto simp: py_isspace_def hd_append)
  then have st: "py_strip (pre @ fence @ body @ ''```'' @ post) = fence @ body @ ''```''"
    by simp
  from assms(3) show ?thesis
  proof
    assume f: "fence = ''```json''"
    have 1: "startswith (fence @ body @ ''```'') ''```json''"
      by (simp add: f startswith_def)
    have "replace ''```json'' [] (fence @ body @ ''```'') = replace ''```json'' [] (body @ ''```'')"
      by (simp add: f startswith_def)
    also have "\<dots> = body @ ''```''"
      using no_tagged_fence[OF assms(4)] by (intro replace_absent) simp_all
    finally have "replace ''```'' [] (replace ''```json'' [] (fence @ body @ ''```'')) = body"
      using replace_closing_fence[OF assms(4)] by simp
    then show ?thesis unfolding st remove_code_blocks_def using 1 by simp
  next
    assume f: "fence = ''```'' \<and> \<not> startswith body ''json''"
    have 1: "\<not> startswith (fence @ body @ ''```'') ''```json''"
      using f by (cases body; cases "tl body"; cases "tl (tl body)"; cases "tl (tl (tl body))")
                 (auto simp: startswith_def)
    have 2: "startswith (fence @ body @ ''```'') ''```''"
      using f by (simp add: startswith_def)
    have "replace ''```'' [] (fence @ body @ ''```'') = replace ''```'' [] (body @ ''```'')"
      using f by (simp add: startswith_def)
    then have "replace ''```'' [] (fence @ body @ ''```'') = body"
      using replace_closing_fence[OF assms(4)] by simp
    then show ?thesis unfolding st remove_code_blocks_def using 1 2 by simp
  qed
qed

text \<open>
  C4, as claimed: only the one wrapper is removed, never text of the payload. The
  removal is \<^verbatim>\<open>replace\<close> over the whole text, so a triple backquote inside the payload
  goes too: the string value of \<open>a\<close> in the answer is three backquotes, the text decoded
  has it empty, and so has the record returned.
\<close>

theorem fence_in_payload_counterexample:
  "remove_code_blocks (py_strip ''```json\<newline>{\"a\": \"```\"}\<newline>```'') = ''{\"a\": \"\"}''
   \<and> fst (analyze_invoice
          (example_env (\<lambda>f. Text ''```json\<newline>{\"a\": \"```\"}\<newline>```'')) ''a.jpg'' new_folder)
       = Some [(''a'', JStr []), (''invoice_file'', JStr ''a.jpg'')]
   \<and> example_loads ''{\"a\": \"```\"}'' = Inr (JObj [(''a'', JStr ''```'')])"
  by code_simp

text \<open>
  C4, amended. Let the answer be a text \<open>body\<close> with no triple backquote in it, wrapped
  in one opening fence, tagged \<^verbatim>\<open>json\<close> or not (and then not itself starting with
  \<^verbatim>\<open>json\<close>), and one closing fence, with blanks around. Then what is decoded is exactly
  \<open>body\<close> stripped of its outer blanks, and when that decodes to an object, the analysis
  returns that object with \<^verbatim>\<open>invoice_file\<close> set to the file's name, after one call.
\<close>

theorem fenced_answer_is_unwrapped:
  assumes "list_all py_isspace pre" and "list_all py_isspace post"
    and "fence = ''```json'' \<or> (fence = ''```'' \<and> \<not> startswith body ''json'')"
    and "\<not> contains body ''```''"
    and "image_open E f"
    and "generate_content E (length (calls s)) f = Text (pre @ fence @ body @ ''```'' @ post)"
    and "json_loads E (py_strip body) = Inr (JObj d)"
  shows "remove_code_blocks (py_strip (pre @ fence @ body @ ''```'' @ post)) = py_strip body
       \<and> analyze_invoice E f s =
           (Some (AList.update ''invoice_file'' (JStr f) d), s\<lparr>calls := calls s @ [f]\<rparr>)"
proof -
  have r: "remove_code_blocks (py_strip (pre @ fence @ body @ ''```'' @ post)) = py_strip body"
    using assms(1-4) by (rule remove_code_blocks_wrapped)
  have l: "json_loads E (remove_code_blocks (py_strip (pre @ fence @ body @ ''```'' @ post)))
      = Inr (JObj d)"
    unfolding r by (rule assms(7))
  have "analyze_attempts E f (a # as) s =
      (Some (AList.update ''invoice_file'' (JStr f) d), called f s)" for a as
    by (rule attempt_object[OF assms(5) assms(6) l])
  then have "analyze_invoice E f s =
           (Some (AList.update ''invoice_file'' (JStr f) d), s\<lparr>calls := calls s @ [f]\<rparr>)"
    by (simp add: analyze_invoice_def max_retries_attempts called_def)
  with r show ?thesis by (rule conjI)
qed

theorem fenced_answer_is_unwrapped_witness:
  "list_all py_isspace '' '' \<and> list_all py_isspace ''\<newline>''
   \<and> \<not> contains ''\<newline>{}\<newline>'' ''```''
   \<and> image_open (example_env (\<lambda>f. Text '' ```json\<newline>{}\<newline>```\<newline>'')) ''a.jpg''
   \<and> generate_content (example_env (\<lambda>f. Text '' ```json\<newline>{}\<newline>```\<newline>''))
        (length (calls new_folder)) ''a.jpg''
       = Text ('' '' @ ''```json'' @ ''\<newline>{}\<newline>'' @ ''```'' @ ''\<newline>'')
   \<and> json_loads (example_env (\<lambda>f. Text '' ```json\<newline>{}\<newline>```\<newline>''))
        (py_strip ''\<newline>{}\<newline>'') = Inr (JObj [])
   \<and> remove_code_blocks (py_strip '' ```json\<newline>{}\<newline>```\<newline>'') = ''{}''
   \<and> analyze_invoice (example_env (\<lambda>f. Text '' ```json\<newline>{}\<newline>```\<newline>'')) ''a.jpg'' new_folder
       = (Some [(''invoice_file'', JStr ''a.jpg'')], new_folder\<lparr>calls := [''a.jpg'']\<rparr>)"
proof -
  have h1: "list_all py_isspace '' ''" and h2: "list_all py_isspace ''\<newline>''"
    by (simp_all add: py_isspace_def)
  have h3: "''```json'' = ''```json'' \<or> (''```json'' = ''```'' \<and> \<not> startswith ''\<newline>{}\<newline>'' ''json'')"
    by simp
  have h4: "\<not> contains ''\<newline>{}\<newline>'' ''```''"
    by (simp add: startswith_def)
  have h5: "image_open (example_env (\<lambda>f. Text '' ```json\<newline>{}\<newline>```\<newline>'')) ''a.jpg''"
    by (simp add: example_env_def)
  have h6: "generate_content (example_env (\<lambda>f. Text '' ```json\<newline>{}\<newline>```\<newline>''))
        (length (calls new_folder)) ''a.jpg''
       = Text ('' '' @ ''```json'' @ ''\<newline>{}\<newline>'' @ ''```'' @ ''\<newline>'')"
    by (simp add: example_env_def)
  have s: "py_strip ''\<newline>{}\<newline>'' = ''{}''"
    by (simp add: py_strip_def py_isspace_def)
  have h7: "json_loads (example_env (\<lambda>f. Text '' ```json\<newline>{}\<newline>```\<newline>''))
        (py_strip ''\<newline>{}\<newline>'') = Inr (JObj [])"
    unfolding s by (simp add: example_env_def example_loads_def)
  have c: "calls new_folder = []" by (simp add: new_folder_def)
  from fenced_answer_is_unwrapped[OF h1 h2 h3 h4 h5 h6 h7]
  show ?thesis using h1 h2 h4 h5 h6 h7 by (simp add: s c)
qed

subsection \<open>C8: malformed output\<close>

lemma startswith_hd:
  "s \<noteq> [] \<Longrightarrow> p \<noteq> [] \<Longrightarrow> hd s \<noteq> hd p \<Longrightarrow> \<not> startswith s p"
  by (cases s; cases p) (simp_all add: startswith_def)

lemma deeply_nested_unchanged:
  "remove_code_blocks (py_strip deeply_nested) = deeply_nested"
proof -
  have ne: "deeply_nested \<noteq> []" and h: "hd deeply_nested = CHR ''[''"
    by (simp_all add: deeply_nested_def)
  have "dropWhile py_isspace deeply_nested = deeply_nested"
    by (simp add: dropWhile_eq_self_iff h py_isspace_def)
  moreover have "rev deeply_nested = deeply_nested"
    by (simp add: deeply_nested_def)
  ultimately have s: "py_strip deeply_nested = deeply_nested"
    by (simp add: py_strip_def)
  have "\<not> startswith deeply_nested ''```json''" "\<not> startswith deeply_nested ''```''"
    using ne h by (simp_all add: startswith_hd)
  then show ?thesis by (simp add: s remove_code_blocks_def)
qed

lemma nested_env_raises:
  "json_loads nested_env (remove_code_blocks (py_strip deeply_nested)) = Inl RecursionError"
  by (simp add: deeply_nested_unchanged nested_env_def)

text \<open>
  C8, as claimed: every text that fails to decode yields a failure of its own kind that
  carries the first 200 characters of the text. What \<^verbatim>\<open>analyze_invoice\<close> yields for a
  text that is not JSON is \<^verbatim>\<open>None\<close>, the very value it yields when the quota is
  exhausted, and the text is not in it. And a text on which the decoder raises
  \<^verbatim>\<open>RecursionError\<close> is not even logged as a parsing error with its first characters,
  but as an error like any other.
\<close>

theorem malformed_output_counterexample:
  "fst (analyze_invoice (example_env (\<lambda>f. Text ''Sorry, no invoice here'')) ''a.jpg'' new_folder) = None
   \<and> fst (analyze_invoice (example_env (\<lambda>f. Resource_exhausted None)) ''a.jpg'' new_folder) = None
   \<and> json_loads nested_env (remove_code_blocks (py_strip deeply_nested)) = Inl RecursionError
   \<and> analyze_invoice nested_env ''a.jpg'' new_folder =
       (None, new_folder\<lparr>calls := [''a.jpg''], events := [Error_processing ''a.jpg'']\<rparr>)"
proof -
  have 1: "fst (analyze_invoice (example_env (\<lambda>f. Text ''Sorry, no invoice here'')) ''a.jpg'' new_folder) = None"
    by code_simp
  have 2: "fst (analyze_invoice (example_env (\<lambda>f. Resource_exhausted None)) ''a.jpg'' new_folder) = None"
    by code_simp
  have "analyze_attempts nested_env ''a.jpg'' (a # as) new_folder =
      (None, log_event (Error_processing ''a.jpg'') (called ''a.jpg'' new_folder))" for a as
    by (rule attempt_decoder_raised[where raw = deeply_nested and e = RecursionError])
       (simp_all add: nested_env_raises, simp_all add: nested_env_def)
  then have 3: "analyze_invoice nested_env ''a.jpg'' new_folder =
       (None, new_folder\<lparr>calls := [''a.jpg''], events := [Error_processing ''a.jpg'']\<rparr>)"
    by (simp add: analyze_invoice_def max_retries_attempts log_event_def called_def new_folder_def)
  from 1 2 nested_env_raises 3 show ?thesis by blast
qed

text \<open>
  C8, amended. When the decoder raises \<^verbatim>\<open>JSONDecodeError\<close> on the answer's text, after
  the fences are removed, the attempt in which that happens ends the analysis at once,
  whatever attempts are left: what is returned is \<^verbatim>\<open>None\<close>, as for every other failure,
  and no record; the model is not called again; and the failure is told apart in the log
  alone, by the JSON parsing error for the file followed by the first 200 characters of
  the text. When the decoder raises any other exception, the analysis ends at once as
  well, with \<^verbatim>\<open>None\<close> and the one error that every unexpected exception logs.
\<close>

theorem malformed_output_fails_once:
  "(image_open E f \<and> generate_content E (length (calls s)) f = Text raw
      \<and> json_loads E (remove_code_blocks (py_strip raw)) = Inl JSONDecodeError \<longrightarrow>
        analyze_attempts E f (attempt # rest) s =
           (None,
            s\<lparr>calls := calls s @ [f],
              events := events s @
                [Error_json_parsing f,
                 Error_response (take 200 (remove_code_blocks (py_strip raw)))]\<rparr>)
      \<and> analyze_invoice E f s =
           (None,
            s\<lparr>calls := calls s @ [f],
              events := events s @
                [Error_json_parsing f,
                 Error_response (take 200 (remove_code_blocks (py_strip raw)))]\<rparr>)
      \<and> length (take 200 (remove_code_blocks (py_strip raw))) \<le> 200)
   \<and> (image_open E f \<and> generate_content E (length (calls s)) f = Text raw
      \<and> json_loads E (remove_code_blocks (py_strip raw)) = Inl e \<and> e \<noteq> JSONDecodeError \<longrightarrow>
        analyze_attempts E f (attempt # rest) s =
           (None, s\<lparr>calls := calls s @ [f], events := events s @ [Error_processing f]\<rparr>)
      \<and> analyze_invoice E f s =
           (None, s\<lparr>calls := calls s @ [f], events := events s @ [Error_processing f]\<rparr>))"
proof (intro conjI impI)
  assume h: "image_open E f \<and> generate_content E (length (calls s)) f = Text raw
      \<and> json_loads E (remove_code_blocks (py_strip raw)) = Inl JSONDecodeError"
  then have "analyze_attempts E f (a # as) s =
           (None,
            s\<lparr>calls := calls s @ [f],
              events := events s @
                [Error_json_parsing f,
                 Error_response (take 200 (remove_code_blocks (py_strip raw)))]\<rparr>)" for a as
    by (simp add: attempt_malformed log_event_def called_def)
  then show "analyze_attempts E f (attempt # rest) s =
           (None,
            s\<lparr>calls := calls s @ [f],
              events := events s @
                [Error_json_parsing f,
                 Error_response (take 200 (remove_code_blocks (py_strip raw)))]\<rparr>)"
    and "analyze_invoice E f s =
           (None,
            s\<lparr>calls := calls s @ [f],
              events := events s @
                [Error_json_parsing f,
                 Error_response (take 200 (remove_code_blocks (py_strip raw)))]\<rparr>)"
    by (simp_all add: analyze_invoice_def max_retries_attempts)
  show "length (take 200 (remove_code_blocks (py_strip raw))) \<le> 200" by simp
next
  assume h: "image_open E f \<and> generate_content E (length (calls s)) f = Text raw
      \<and> json_loads E (remove_code_blocks (py_strip raw)) = Inl e \<and> e \<noteq> JSONDecodeError"
  then have "analyze_attempts E f (a # as) s =
           (None, s\<lparr>calls := calls s @ [f], events := events s @ [Error_processing f]\<rparr>)" for a as
    using attempt_decoder_raised[of E f s raw e a as] by (simp add: log_event_def called_def)
  then show "analyze_attempts E f (attempt # rest) s =
           (None, s\<lparr>calls := calls s @ [f], events := events s @ [Error_processing f]\<rparr>)"
    and "analyze_invoice E f s =
           (None, s\<lparr>calls := calls s @ [f], events := events s @ [Error_processing f]\<rparr>)"
    by (simp_all add: analyze_invoice_def max_retries_attempts)
qed

theorem malformed_output_fails_once_witness:
  "image_open (example_env (\<lambda>f. Text ''Sorry, no invoice here'')) ''a.jpg''
   \<and> generate_content (example_env (\<lambda>f. Text ''Sorry, no invoice here'')) (length (calls new_folder)) ''a.jpg''
       = Text ''Sorry, no invoice here''
   \<and> json_loads (example_env (\<lambda>f. Text ''Sorry, no invoice here''))
        (remove_code_blocks (py_strip ''Sorry, no invoice here'')) = Inl JSONDecodeError
   \<and> analyze_invoice (example_env (\<lambda>f. Text ''Sorry, no invoice here'')) ''a.jpg'' new_folder =
       (None,
        new_folder\<lparr>calls := [''a.jpg''],
          events := [Error_json_parsing ''a.jpg'', Error_response ''Sorry, no invoice here'']\<rparr>)
   \<and> image_open nested_env ''a.jpg''
   \<and> generate_content nested_env (length (calls new_folder)) ''a.jpg'' = Text deeply_nested
   \<and> json_loads nested_env (remove_code_blocks (py_strip deeply_nested)) = Inl RecursionError
   \<and> RecursionError \<noteq> JSONDecodeError
   \<and> analyze_attempts nested_env ''a.jpg'' [2] new_folder =
       (None, new_folder\<lparr>calls := [''a.jpg''], events := [Error_processing ''a.jpg'']\<rparr>)"
proof -
  have h1: "image_open (example_env (\<lambda>f. Text ''Sorry, no invoice here'')) ''a.jpg''"
    by (simp add: example_env_def)
  have h2: "generate_content (example_env (\<lambda>f. Text ''Sorry, no invoice here'')) (length (calls new_folder)) ''a.jpg''
       = Text ''Sorry, no invoice here''"
    by (simp add: example_env_def)
  have t: "remove_code_blocks (py_strip ''Sorry, no invoice here'') = ''Sorry, no invoice here''"
    by code_simp
  have h3: "json_loads (example_env (\<lambda>f. Text ''Sorry, no invoice here''))
        (remove_code_blocks (py_strip ''Sorry, no invoice here'')) = Inl JSONDecodeError"
    unfolding t by (simp add: example_env_def example_loads_def)
  have g1: "image_open nested_env ''a.jpg''"
    and g2: "generate_content nested_env (length (calls new_folder)) ''a.jpg'' = Text deeply_nested"
    by (simp_all add: nested_env_def)
  note g3 = nested_env_raises
  have nf: "calls new_folder = []" "events new_folder = []"
    by (simp_all add: new_folder_def)
  from malformed_output_fails_once[of
      "example_env (\<lambda>f. Text ''Sorry, no invoice here'')" "''a.jpg''" new_folder
      "''Sorry, no invoice here''" 0 "[]" RecursionError] h1 h2 h3
  have a: "analyze_invoice (example_env (\<lambda>f. Text ''Sorry, no invoice here'')) ''a.jpg'' new_folder =
       (None,
        new_folder\<lparr>calls := [''a.jpg''],
          events := [Error_json_parsing ''a.jpg'', Error_response ''Sorry, no invoice here'']\<rparr>)"
    by (simp add: t nf)
  from malformed_output_fails_once[of nested_env "''a.jpg''" new_folder deeply_nested 2 "[]"
      RecursionError] g1 g2 g3
  have b: "analyze_attempts nested_env ''a.jpg'' [2] new_folder =
       (None, new_folder\<lparr>calls := [''a.jpg''], events := [Error_processing ''a.jpg'']\<rparr>)"
    by (simp add: nf)
  from h1 h2 h3 a g1 g2 g3 b show ?thesis by simp
qed

subsection \<open>C5: a failed item\<close>

text \<open>Each kind of failure makes \<^verbatim>\<open>analyze_invoice\<close> return \<^verbatim>\<open>None\<close>.\<close>

lemma analyze_invoice_failures:
  "\<not> image_open E f \<Longrightarrow> fst (analyze_invoice E f s) = None"
  "image_open E f \<Longrightarrow> generate_content E (length (calls s)) f = Other_exception \<Longrightarrow>
     fst (analyze_invoice E f s) = None"
  "image_open E f \<Longrightarrow> generate_content E (length (calls s)) f = Text raw \<Longrightarrow>
     json_loads E (remove_code_blocks (py_strip raw)) = Inl e \<Longrightarrow>
     fst (analyze_invoice E f s) = None"
  "image_open E f \<Longrightarrow> generate_content E (length (calls s)) f = Text raw \<Longrightarrow>
     json_loads E (remove_code_blocks (py_strip raw)) = Inr v \<Longrightarrow> \<forall>d. v \<noteq> JObj d \<Longrightarrow>
     fst (analyze_invoice E f s) = None"
  "image_open E f \<Longrightarrow> (\<And>k. \<exists>rd. generate_content E k f = Resource_exhausted rd) \<Longrightarrow>
     fst (analyze_invoice E f s) = None"
proof -
  show "\<not> image_open E f \<Longrightarrow> fst (analyze_invoice E f s) = None"
    by (simp add: analyze_invoice_def max_retries_attempts attempt_no_image)
  show "image_open E f \<Longrightarrow> generate_content E (length (calls s)) f = Other_exception \<Longrightarrow>
     fst (analyze_invoice E f s) = None"
    by (simp add: analyze_invoice_def max_retries_attempts attempt_other_exception)
  show "image_open E f \<Longrightarrow> generate_content E (length (calls s)) f = Text raw \<Longrightarrow>
     json_loads E (remove_code_blocks (py_strip raw)) = Inl e \<Longrightarrow>
     fst (analyze_invoice E f s) = None"
    by (cases "e = JSONDecodeError")
       (simp_all add: analyze_invoice_def max_retries_attempts attempt_malformed
          attempt_decoder_raised)
  show "image_open E f \<Longrightarrow> generate_content E (length (calls s)) f = Text raw \<Longrightarrow>
     json_loads E (remove_code_blocks (py_strip raw)) = Inr v \<Longrightarrow> \<forall>d. v \<noteq> JObj d \<Longrightarrow>
     fst (analyze_invoice E f s) = None"
    by (simp add: analyze_invoice_def max_retries_attempts attempt_not_object)
  show "image_open E f \<Longrightarrow> (\<And>k. \<exists>rd. generate_content E k f = Resource_exhausted rd) \<Longrightarrow>
     fst (analyze_invoice E f s) = None"
    using analyze_invoice_exhausted[of E f s] by fastforce
qed

text \<open>
  The round of a file whose analysis fails, in a processor whose results the store
  accepts: the state \<open>s'\<close> it hands on is what the loop returns when the file is the
  last, and what the loop goes on from when it is not.
\<close>

lemma process_files_failed_round:
  assumes "fst (analyze_invoice E f s) = None"
    and "list_all storable (results s)"
  shows "\<exists>s'. process_files E tot idx [f] pf s = Returns (pf, s')
           \<and> process_files E tot idx (f # rest) pf s = process_files E tot (idx + 1) rest pf s'
           \<and> failed_count s' = failed_count s + 1
           \<and> processed_count s' = processed_count s
           \<and> results s' = results s
           \<and> progress_file s' = Saved \<lparr>processed = pf, last_updated = now E (clock_reads s)\<rparr>
           \<and> calls s' = calls (snd (analyze_invoice E f s))"
proof -
  obtain s1 where an: "analyze_invoice E f s = (None, s1)"
    using assms(1) by (cases "analyze_invoice E f s") simp
  from analyze_invoice_frame[of E f s] an obtain k es where
    s1: "s1 = s\<lparr>calls := calls s @ replicate k f, events := events s @ es\<rparr>"
    by auto
  define s3 where "s3 = save_progress E pf (s1\<lparr>failed_count := failed_count s1 + 1\<rparr>)"
  have "list_all storable (results s3)"
    using assms(2) by (simp add: s3_def s1 save_progress_eq)
  from save_results_storable[OF this] obtain s4 where sr: "save_results s3 = (None, s4)"
    and f4: "results s4 = results s3" "calls s4 = calls s3" "failed_count s4 = failed_count s3"
      "processed_count s4 = processed_count s3" "progress_file s4 = progress_file s3"
    by blast
  define s5 where "s5 = (if idx < tot
     then log_event (Sleep_rate_limit DELAY_BETWEEN_REQUESTS) s4 else s4)"
  have step: "process_files E tot idx (f # xs) pf s = process_files E tot (idx + 1) xs pf s5" for xs
    unfolding process_files_failed[OF an] s3_def[symmetric] sr s5_def by simp
  have "failed_count s5 = failed_count s + 1" "processed_count s5 = processed_count s"
    "results s5 = results s"
    "progress_file s5 = Saved \<lparr>processed = pf, last_updated = now E (clock_reads s)\<rparr>"
    "calls s5 = calls s1"
    using f4 by (simp_all add: s5_def s3_def s1 log_event_def save_progress_eq)
  with step[of rest] step[of "[]"] an show ?thesis by (intro exI[of _ s5]) simp
qed

text \<open>
  C5, as claimed: no error of one item ends the loop. An error of the store does: the
  first image's answer decodes to a record with a field outside the ten columns,
  \<^verbatim>\<open>save_results\<close> raises \<^verbatim>\<open>ValueError\<close> outside every \<^verbatim>\<open>try\<close>, and the run ends there,
  with no failure counted, the image already in the ledger and the second image never
  tried.
\<close>

theorem store_error_ends_loop_counterexample:
  "process_all (example_env (\<lambda>f. Text ''{\"vat\": \"8%\"}'')) None
     [jpg ''a.jpg'', jpg ''b.jpg''] new_folder =
   Raises ValueError
     \<lparr>processed_count = 1, failed_count = 0,
      results = [[(''vat'', JStr ''8%''), (''invoice_file'', JStr ''a.jpg'')]],
      progress_file = Saved \<lparr>processed = [''a.jpg''], last_updated = ''2024-01-01T00:00:00''\<rparr>,
      output_csv = Some [Header_row fieldnames],
      calls = [''a.jpg''], events = [], clock_reads = 1\<rparr>"
  by code_simp

text \<open>
  C5, amended. Let the store accept the results the processor holds (as it does in
  every round of a run that has not raised). If the analysis of a file fails, the round
  does not raise: the failure counter goes up by one, the success counter and the
  results stay, the ledger written is the list of completed files as it was, without
  this file, and the loop goes on with the next file, or returns if there is none. And
  if the analysis fails for every file of a work list, the loop returns after the last
  with one failure counted for each and the ledger as it was.
\<close>

theorem failed_item_is_counted_and_left_out:
  "(fst (analyze_invoice E f s) = None \<and> list_all storable (results s) \<longrightarrow>
      (\<exists>s'. process_files E tot idx [f] pf s = Returns (pf, s')
           \<and> process_files E tot idx (f # rest) pf s = process_files E tot (idx + 1) rest pf s'
           \<and> failed_count s' = failed_count s + 1
           \<and> processed_count s' = processed_count s
           \<and> results s' = results s
           \<and> progress_file s' = Saved \<lparr>processed = pf, last_updated = now E (clock_reads s)\<rparr>
           \<and> calls s' = calls (snd (analyze_invoice E f s))))
   \<and> ((\<forall>g t. fst (analyze_invoice E g t) = None) \<and> list_all storable (results s) \<longrightarrow>
      (\<exists>s'. process_files E tot idx files pf s = Returns (pf, s')
           \<and> failed_count s' = failed_count s + length files
           \<and> processed_count s' = processed_count s
           \<and> results s' = results s
           \<and> (files \<noteq> [] \<longrightarrow> load_progress s' = Inr pf)))"
proof (intro conjI impI)
  assume "fst (analyze_invoice E f s) = None \<and> list_all storable (results s)"
  then show "\<exists>s'. process_files E tot idx [f] pf s = Returns (pf, s')
           \<and> process_files E tot idx (f # rest) pf s = process_files E tot (idx + 1) rest pf s'
           \<and> failed_count s' = failed_count s + 1
           \<and> processed_count s' = processed_count s
           \<and> results s' = results s
           \<and> progress_file s' = Saved \<lparr>processed = pf, last_updated = now E (clock_reads s)\<rparr>
           \<and> calls s' = calls (snd (analyze_invoice E f s))"
    using process_files_failed_round[where E=E and f=f and s=s and tot=tot and idx=idx and pf=pf and rest=rest] by blast
next
  assume h: "(\<forall>g t. fst (analyze_invoice E g t) = None) \<and> list_all storable (results s)"
  then have all: "\<And>g t. fst (analyze_invoice E g t) = None" by blast
  from h have "list_all storable (results s)" by blast
  then show "\<exists>s'. process_files E tot idx files pf s = Returns (pf, s')
           \<and> failed_count s' = failed_count s + length files
           \<and> processed_count s' = processed_count s
           \<and> results s' = results s
           \<and> (files \<noteq> [] \<longrightarrow> load_progress s' = Inr pf)"
  proof (induction files arbitrary: idx s)
    case Nil
    then show ?case by simp
  next
    case (Cons f rest)
    from process_files_failed_round[OF all Cons.prems, where tot=tot and idx=idx and pf=pf and rest=rest] obtain s1 where
      last: "process_files E tot idx [f] pf s = Returns (pf, s1)"
      and step: "process_files E tot idx (f # rest) pf s = process_files E tot (idx + 1) rest pf s1"
      and f1: "failed_count s1 = failed_count s + 1" "processed_count s1 = processed_count s"
        "results s1 = results s"
        "progress_file s1 = Saved \<lparr>processed = pf, last_updated = now E (clock_reads s)\<rparr>"
      by blast
    from Cons.prems f1 have "list_all storable (results s1)" by simp
    from Cons.IH[OF this, of "idx + 1"] obtain s' where
      r: "process_files E tot (idx + 1) rest pf s1 = Returns (pf, s')"
      and f': "failed_count s' = failed_count s1 + length rest" "processed_count s' = processed_count s1"
        "results s' = results s1" "rest \<noteq> [] \<longrightarrow> load_progress s' = Inr pf"
      by blast
    have "load_progress s' = Inr pf"
    proof (cases rest)
      case Nil
      with r have "s' = s1" by simp
      then show ?thesis using f1 by (simp add: load_progress_def)
    next
      case (Cons g gs)
      then show ?thesis using f' by simp
    qed
    then show ?case using step r f1 f' by simp
  qed
qed

theorem failed_item_is_counted_and_left_out_witness:
  "fst (analyze_invoice (example_env (\<lambda>f. Text ''Sorry, no invoice here'')) ''a.jpg'' new_folder) = None
   \<and> (\<forall>g t. fst (analyze_invoice (example_env (\<lambda>f. Text ''Sorry, no invoice here'')) g t) = None)
   \<and> list_all storable (results new_folder)
   \<and> (\<exists>s'. process_files (example_env (\<lambda>f. Text ''Sorry, no invoice here'')) 2 1
               [''a.jpg''] [] new_folder = Returns ([], s')
           \<and> process_files (example_env (\<lambda>f. Text ''Sorry, no invoice here'')) 2 1
               [''a.jpg'', ''b.jpg''] [] new_folder =
             process_files (example_env (\<lambda>f. Text ''Sorry, no invoice here'')) 2 2 [''b.jpg''] [] s'
           \<and> failed_count s' = 1 \<and> processed_count s' = 0 \<and> results s' = []
           \<and> progress_file s' = Saved \<lparr>processed = [], last_updated = ''2024-01-01T00:00:00''\<rparr>
           \<and> calls s' = [''a.jpg''])
   \<and> (\<exists>s'. process_files (example_env (\<lambda>f. Text ''Sorry, no invoice here'')) 2 1
               [''a.jpg'', ''b.jpg''] [] new_folder = Returns ([], s')
           \<and> failed_count s' = 2 \<and> processed_count s' = 0 \<and> results s' = []
           \<and> load_progress s' = Inr [])"
proof -
  let ?E = "example_env (\<lambda>f. Text ''Sorry, no invoice here'')"
  have t: "remove_code_blocks (py_strip ''Sorry, no invoice here'') = ''Sorry, no invoice here''"
    by code_simp
  have all: "fst (analyze_invoice ?E g t) = None" for g t
    by (rule analyze_invoice_failures(3)[where raw = "''Sorry, no invoice here''" and e = JSONDecodeError])
       (simp_all add: example_env_def t example_loads_def)
  have c: "calls (snd (analyze_invoice ?E ''a.jpg'' new_folder)) = [''a.jpg'']"
    by code_simp
  have nf: "failed_count new_folder = 0" "processed_count new_folder = 0" "results new_folder = []"
    "clock_reads new_folder = 0"
    by (simp_all add: new_folder_def)
  have n: "now ?E 0 = ''2024-01-01T00:00:00''" by (simp add: example_env_def)
  have h2: "list_all storable (results new_folder)"
    by (simp add: nf)
  note th = failed_item_is_counted_and_left_out[where E = ?E and f = "''a.jpg''" and s = new_folder
      and tot = 2 and idx = 1 and pf = "[]" and rest = "[''b.jpg'']"
      and files = "[''a.jpg'', ''b.jpg'']"]
  from th all h2 have a: "\<exists>s'. process_files ?E 2 1 [''a.jpg''] [] new_folder = Returns ([], s')
           \<and> process_files ?E 2 1 [''a.jpg'', ''b.jpg''] [] new_folder =
             process_files ?E 2 2 [''b.jpg''] [] s'
           \<and> failed_count s' = 1 \<and> processed_count s' = 0 \<and> results s' = []
           \<and> progress_file s' = Saved \<lparr>processed = [], last_updated = ''2024-01-01T00:00:00''\<rparr>
           \<and> calls s' = [''a.jpg'']"
    by (simp add: c nf n numeral_2_eq_2)
  from th all h2 have b: "\<exists>s'. process_files ?E 2 1 [''a.jpg'', ''b.jpg''] [] new_folder = Returns ([], s')
           \<and> failed_count s' = 2 \<and> processed_count s' = 0 \<and> results s' = []
           \<and> load_progress s' = Inr []"
    by (simp add: nf numeral_2_eq_2)
  from all[of "''a.jpg''" new_folder] all h2 a b show ?thesis by blast
qed

subsection \<open>C9: the rate-limit delay\<close>

text \<open>
  The loop over a list in two parts is the loop over the first part, followed, if that
  returns, by the loop over the second from where the first left off.
\<close>

lemma process_files_append:
  "process_files E tot idx (xs @ ys) pf s =
     (case process_files E tot idx xs pf s of
        Returns (pf1, s1) \<Rightarrow> process_files E tot (idx + length xs) ys pf1 s1
      | Raises e r \<Rightarrow> Raises e r)"
proof (induction xs arbitrary: idx pf s)
  case Nil
  then show ?case by simp
next
  case (Cons f rest)
  obtain r s1 pf1 s2 err s4 where
    sr: "save_results (save_progress E pf1 s2) = (err, s4)"
    and step: "\<And>zs. process_files E tot idx (f # zs) pf s =
       (case err of
          Some e \<Rightarrow> Raises e (pf1, s4)
        | None \<Rightarrow>
            process_files E tot (idx + 1) zs pf1
              (if idx < tot then log_event (Sleep_rate_limit DELAY_BETWEEN_REQUESTS) s4 else s4))"
  proof -
    obtain r s1 where an: "analyze_invoice E f s = (r, s1)" by (cases "analyze_invoice E f s")
    show thesis
    proof (cases r)
      case None
      obtain err s4 where sr:
        "save_results (save_progress E pf (s1\<lparr>failed_count := failed_count s1 + 1\<rparr>)) = (err, s4)"
        by (cases "save_results (save_progress E pf (s1\<lparr>failed_count := failed_count s1 + 1\<rparr>))")
      show thesis
      proof (rule that[OF sr])
        fix zs
        show "process_files E tot idx (f # zs) pf s =
          (case err of Some e \<Rightarrow> Raises e (pf, s4)
           | None \<Rightarrow> process_files E tot (idx + 1) zs pf
              (if idx < tot then log_event (Sleep_rate_limit DELAY_BETWEEN_REQUESTS) s4 else s4))"
          unfolding process_files_failed[OF an[unfolded None]] sr by (cases err) simp_all
      qed
    next
      case (Some d)
      obtain err s4 where sr:
        "save_results (save_progress E (pf @ [f])
           (s1\<lparr>results := results s1 @ [d], processed_count := processed_count s1 + 1\<rparr>)) = (err, s4)"
        by (cases "save_results (save_progress E (pf @ [f])
           (s1\<lparr>results := results s1 @ [d], processed_count := processed_count s1 + 1\<rparr>))")
      show thesis
      proof (rule that[OF sr])
        fix zs
        show "process_files E tot idx (f # zs) pf s =
          (case err of Some e \<Rightarrow> Raises e (pf @ [f], s4)
           | None \<Rightarrow> process_files E tot (idx + 1) zs (pf @ [f])
              (if idx < tot then log_event (Sleep_rate_limit DELAY_BETWEEN_REQUESTS) s4 else s4))"
          unfolding process_files_succeeded[OF an[unfolded Some]] sr by (cases err) simp_all
      qed
    qed
  qed
  show ?case
  proof (cases err)
    case (Some e)
    then show ?thesis using step[of "rest @ ys"] step[of rest] by simp
  next
    case None
    then show ?thesis using step[of "rest @ ys"] step[of rest] Cons.IH
      by (simp split: outcome.splits prod.splits)
  qed
qed

text \<open>
  A loop that returns has slept once at the end of every round whose index is below the
  total, and in no other place.
\<close>

lemma process_files_sleeps:
  "process_files E tot idx files pf s = Returns (pf', s') \<Longrightarrow>
   rate_limit_sleeps (events s') =
     rate_limit_sleeps (events s) @ replicate (min (length files) (tot - idx)) DELAY_BETWEEN_REQUESTS"
proof (induction files arbitrary: idx pf s)
  case Nil
  then show ?case by simp
next
  case (Cons f rest)
  obtain r s1 pf1 s2 err s4 where
    an: "analyze_invoice E f s = (r, s1)"
    and s2: "(r = None \<and> pf1 = pf \<and> s2 = s1\<lparr>failed_count := failed_count s1 + 1\<rparr>) \<or>
     (\<exists>d. r = Some d \<and> d \<noteq> [] \<and> pf1 = pf @ [f] \<and>
        s2 = s1\<lparr>results := results s1 @ [d], processed_count := processed_count s1 + 1\<rparr>)"
    and sr: "save_results (save_progress E pf1 s2) = (err, s4)"
    and step: "process_files E tot idx (f # rest) pf s =
       (case err of
          Some e \<Rightarrow> Raises e (pf1, s4)
        | None \<Rightarrow>
            process_files E tot (idx + 1) rest pf1
              (if idx < tot then log_event (Sleep_rate_limit DELAY_BETWEEN_REQUESTS) s4 else s4))"
    by (rule process_files_round[where E=E and f=f and s=s and pf=pf and rest=rest
          and tot=tot and idx=idx]) blast
  from step Cons.prems(1) have none: "err = None" by (cases err) simp_all
  from analyze_invoice_frame[of E f s] an have e1: "rate_limit_sleeps (events s1) = rate_limit_sleeps (events s)"
    by auto
  from s2 have e2: "events s2 = events s1" by auto
  from save_results_frame[of "save_progress E pf1 s2"] sr
  have e4: "rate_limit_sleeps (events s4) = rate_limit_sleeps (events s)"
    using e1 e2 by (auto simp: save_progress_eq)
  define s5 where "s5 = (if idx < tot then log_event (Sleep_rate_limit DELAY_BETWEEN_REQUESTS) s4 else s4)"
  have run: "process_files E tot (idx + 1) rest pf1 s5 = Returns (pf', s')"
    using step none Cons.prems(1) by (simp add: s5_def)
  note ih = Cons.IH[OF run]
  show ?case
  proof (cases "idx < tot")
    case True
    then have "min (length (f # rest)) (tot - idx) = Suc (min (length rest) (tot - (idx + 1)))"
      by auto
    then show ?thesis using ih e4 True by (simp add: s5_def log_event_def)
  next
    case False
    then show ?thesis using ih e4 by (simp add: s5_def)
  qed
qed

text \<open>The last thing a round below the total does is the sleep.\<close>

lemma process_files_ends_with_sleep:
  "process_files E tot idx files pf s = Returns (pf', s') \<Longrightarrow> files \<noteq> [] \<Longrightarrow>
   idx + length files \<le> tot \<Longrightarrow>
   events s' \<noteq> [] \<and> last (events s') = Sleep_rate_limit DELAY_BETWEEN_REQUESTS"
proof (induction files arbitrary: idx pf s)
  case Nil
  then show ?case by simp
next
  case (Cons f rest)
  obtain r s1 pf1 s2 err s4 where
    step: "process_files E tot idx (f # rest) pf s =
       (case err of
          Some e \<Rightarrow> Raises e (pf1, s4)
        | None \<Rightarrow>
            process_files E tot (idx + 1) rest pf1
              (if idx < tot then log_event (Sleep_rate_limit DELAY_BETWEEN_REQUESTS) s4 else s4))"
    by (rule process_files_round[where E=E and f=f and s=s and pf=pf and rest=rest
          and tot=tot and idx=idx]) blast
  from step Cons.prems(1) have none: "err = None" by (cases err) simp_all
  have lt: "idx < tot" using Cons.prems(3) by simp
  have run: "process_files E tot (idx + 1) rest pf1
      (log_event (Sleep_rate_limit DELAY_BETWEEN_REQUESTS) s4) = Returns (pf', s')"
    using step none Cons.prems(1) lt by simp
  show ?case
  proof (cases rest)
    case Nil
    with run have "s' = log_event (Sleep_rate_limit DELAY_BETWEEN_REQUESTS) s4" by simp
    then show ?thesis by (simp add: log_event_def)
  next
    case (Cons g gs)
    then show ?thesis using Cons.IH[OF run] Cons.prems(3) by simp
  qed
qed

text \<open>
  C9. The class constants give a delay of \<open>60 / REQUESTS_PER_MINUTE\<close>, which is 4
  seconds for the budget of 15. A run of \<^verbatim>\<open>process_all\<close> that returns, with \<open>n\<close> files
  in its work list, has slept for rate limiting exactly \<open>n - 1\<close> times (never, when
  \<open>n = 0\<close>), each time for that delay. The sleeps fall after each item but the last: the
  run passes, for every \<open>k\<close> up to \<open>n\<close>, through the state \<open>sk\<close> that the loop over the
  first \<open>k\<close> files returns; by then it has slept \<open>k\<close> times if items are left, \<open>n - 1\<close>
  times if none is; and while items are left, the sleep is the last thing it has done.
\<close>

theorem rate_limit_delays:
  assumes "process_all E max_files listing s = Returns s'"
    and "load_progress s = Inr pf"
    and "remaining = remaining_files max_files (map name (image_files listing)) pf"
  shows "rate_limit_sleeps (events s') =
           rate_limit_sleeps (events s) @ replicate (length remaining - 1) DELAY_BETWEEN_REQUESTS
         \<and> DELAY_BETWEEN_REQUESTS = 60 / REQUESTS_PER_MINUTE
         \<and> DELAY_BETWEEN_REQUESTS = 4
         \<and> (image_files listing \<noteq> [] \<longrightarrow>
              (\<forall>k\<le>length remaining. \<exists>pfk sk pf'.
                  process_files E (length remaining) 1 (take k remaining) pf s = Returns (pfk, sk)
                \<and> process_files E (length remaining) (Suc k) (drop k remaining) pfk sk
                    = Returns (pf', s')
                \<and> rate_limit_sleeps (events sk) =
                    rate_limit_sleeps (events s) @
                      replicate (min k (length remaining - 1)) DELAY_BETWEEN_REQUESTS
                \<and> (0 < k \<and> k < length remaining \<longrightarrow>
                      events sk \<noteq> [] \<and> last (events sk) = Sleep_rate_limit DELAY_BETWEEN_REQUESTS)))"
proof -
  have d: "DELAY_BETWEEN_REQUESTS = 60 / REQUESTS_PER_MINUTE" "DELAY_BETWEEN_REQUESTS = 4"
    by (simp_all add: DELAY_BETWEEN_REQUESTS_def REQUESTS_PER_MINUTE_def)
  define n where "n = length remaining"
  show ?thesis
  proof (cases "image_files listing = []")
    case True
    then have "remaining = []"
      by (simp add: assms(3) remaining_files_def slice_to_def split: option.splits)
    with True assms(1) d show ?thesis by (auto simp: process_all_def log_event_def)
  next
    case False
    with assms obtain pf' where
      run: "process_files E n 1 remaining pf s = Returns (pf', s')"
      by (auto simp: process_all_def Let_def n_def split: outcome.splits)
    have whole: "rate_limit_sleeps (events s') =
           rate_limit_sleeps (events s) @ replicate (n - 1) DELAY_BETWEEN_REQUESTS"
      using process_files_sleeps[OF run] by (simp add: n_def)
    have parts: "\<exists>pfk sk pf'.
                  process_files E n 1 (take k remaining) pf s = Returns (pfk, sk)
                \<and> process_files E n (Suc k) (drop k remaining) pfk sk = Returns (pf', s')
                \<and> rate_limit_sleeps (events sk) =
                    rate_limit_sleeps (events s) @ replicate (min k (n - 1)) DELAY_BETWEEN_REQUESTS
                \<and> (0 < k \<and> k < n \<longrightarrow>
                      events sk \<noteq> [] \<and> last (events sk) = Sleep_rate_limit DELAY_BETWEEN_REQUESTS)"
      if k: "k \<le> n" for k
    proof -
      have len: "length (take k remaining) = k" using k by (simp add: n_def)
      have "process_files E n 1 (take k remaining @ drop k remaining) pf s = Returns (pf', s')"
        using run by simp
      then obtain pfk sk where
        first: "process_files E n 1 (take k remaining) pf s = Returns (pfk, sk)"
        and rest: "process_files E n (Suc k) (drop k remaining) pfk sk = Returns (pf', s')"
        unfolding process_files_append len
        by (cases "process_files E n 1 (take k remaining) pf s") auto
      have sl: "rate_limit_sleeps (events sk) =
          rate_limit_sleeps (events s) @ replicate (min k (n - 1)) DELAY_BETWEEN_REQUESTS"
        using process_files_sleeps[OF first] len by simp
      have "events sk \<noteq> [] \<and> last (events sk) = Sleep_rate_limit DELAY_BETWEEN_REQUESTS"
        if "0 < k" "k < n"
        using that len by (intro process_files_ends_with_sleep[OF first]) auto
      with first rest sl show ?thesis by blast
    qed
    from whole d parts show ?thesis unfolding n_def by blast
  qed
qed

theorem rate_limit_delays_witness:
  "process_all (example_env (\<lambda>f. Text ''{}'')) None
       [jpg ''a.jpg'', jpg ''b.jpg'', jpg ''c.jpg''] new_folder =
     Returns (outcome_value (process_all (example_env (\<lambda>f. Text ''{}'')) None
       [jpg ''a.jpg'', jpg ''b.jpg'', jpg ''c.jpg''] new_folder))
   \<and> load_progress new_folder = Inr []
   \<and> [''a.jpg'', ''b.jpg'', ''c.jpg''] =
       remaining_files None (map name (image_files [jpg ''a.jpg'', jpg ''b.jpg'', jpg ''c.jpg''])) []
   \<and> rate_limit_sleeps (events (outcome_value (process_all (example_env (\<lambda>f. Text ''{}'')) None
       [jpg ''a.jpg'', jpg ''b.jpg'', jpg ''c.jpg''] new_folder))) = [4, 4]
   \<and> image_files [jpg ''a.jpg'', jpg ''b.jpg'', jpg ''c.jpg''] \<noteq> []
   \<and> (\<exists>pfk sk pf'.
         process_files (example_env (\<lambda>f. Text ''{}'')) 3 1 [''a.jpg''] [] new_folder = Returns (pfk, sk)
       \<and> process_files (example_env (\<lambda>f. Text ''{}'')) 3 2 [''b.jpg'', ''c.jpg''] pfk sk =
           Returns (pf', outcome_value (process_all (example_env (\<lambda>f. Text ''{}'')) None
             [jpg ''a.jpg'', jpg ''b.jpg'', jpg ''c.jpg''] new_folder))
       \<and> rate_limit_sleeps (events sk) = [4]
       \<and> events sk \<noteq> [] \<and> last (events sk) = Sleep_rate_limit 4)"
proof -
  let ?E = "example_env (\<lambda>f. Text ''{}'')"
  let ?l = "[jpg ''a.jpg'', jpg ''b.jpg'', jpg ''c.jpg'']"
  have h1: "process_all ?E None ?l new_folder = Returns (outcome_value (process_all ?E None ?l new_folder))"
    by code_simp
  have h2: "load_progress new_folder = Inr []"
    by (simp add: load_progress_def new_folder_def)
  have h3: "[''a.jpg'', ''b.jpg'', ''c.jpg''] = remaining_files None (map name (image_files ?l)) []"
    by code_simp
  have h4: "image_files ?l \<noteq> []"
    by code_simp
  have e: "events new_folder = []" by (simp add: new_folder_def)
  note th = rate_limit_delays[OF h1 h2 h3]
  have d: "DELAY_BETWEEN_REQUESTS = 4"
    using th by blast
  from th have a: "rate_limit_sleeps (events (outcome_value (process_all ?E None ?l new_folder))) = [4, 4]"
    by (simp add: e numeral_2_eq_2)
  have k1: "(1::nat) \<le> length [''a.jpg'', ''b.jpg'', ''c.jpg'']" by simp
  from th[THEN conjunct2, THEN conjunct2, THEN conjunct2, rule_format, OF h4 k1]
  obtain pfk sk pf' where
    p1: "process_files ?E (length [''a.jpg'', ''b.jpg'', ''c.jpg'']) 1
           (take 1 [''a.jpg'', ''b.jpg'', ''c.jpg'']) [] new_folder = Returns (pfk, sk)"
    and p2: "process_files ?E (length [''a.jpg'', ''b.jpg'', ''c.jpg'']) (Suc 1)
           (drop 1 [''a.jpg'', ''b.jpg'', ''c.jpg'']) pfk sk =
           Returns (pf', outcome_value (process_all ?E None ?l new_folder))"
    and p3: "rate_limit_sleeps (events sk) =
           rate_limit_sleeps (events new_folder) @
             replicate (min 1 (length [''a.jpg'', ''b.jpg'', ''c.jpg''] - 1)) DELAY_BETWEEN_REQUESTS"
    and p4: "0 < (1::nat) \<and> 1 < length [''a.jpg'', ''b.jpg'', ''c.jpg''] \<longrightarrow>
           events sk \<noteq> [] \<and> last (events sk) = Sleep_rate_limit DELAY_BETWEEN_REQUESTS"
    by blast
  have q1: "process_files ?E 3 1 [''a.jpg''] [] new_folder = Returns (pfk, sk)"
    using p1 by (simp add: numeral_3_eq_3)
  have q2: "process_files ?E 3 2 [''b.jpg'', ''c.jpg''] pfk sk =
           Returns (pf', outcome_value (process_all ?E None ?l new_folder))"
    using p2 by (simp add: numeral_3_eq_3 numeral_2_eq_2)
  have q3: "rate_limit_sleeps (events sk) = [4]"
    using p3 by (simp add: e d)
  have q4: "events sk \<noteq> [] \<and> last (events sk) = Sleep_rate_limit 4"
    using p4 by (simp add: d)
  from q1 q2 q3 q4 have b: "\<exists>pfk sk pf'.
         process_files ?E 3 1 [''a.jpg''] [] new_folder = Returns (pfk, sk)
       \<and> process_files ?E 3 2 [''b.jpg'', ''c.jpg''] pfk sk =
           Returns (pf', outcome_value (process_all ?E None ?l new_folder))
       \<and> rate_limit_sleeps (events sk) = [4]
       \<and> events sk \<noteq> [] \<and> last (events sk) = Sleep_rate_limit 4"
    by blast
  from h1 h2 h3 a h4 b show ?thesis by blast
qed

end
